theory Spec2Isabelle
  imports Main "HOL-Library.Multiset"
begin

section \<open>Python strings and the library calls the source uses\<close>

text \<open>
  A Python \<^verbatim>\<open>str\<close> is a sequence of Unicode code points, modelled as a list of
  naturals. \<open>ustr\<close> embeds an ASCII literal of the source.
\<close>

type_synonym pystr = "nat list"

definition ustr :: "string \<Rightarrow> pystr" where
  "ustr s = map of_char s"

text \<open>
  \<^verbatim>\<open>str.isspace\<close> for one code point: the characters \<^verbatim>\<open>str.strip()\<close> removes and
  \<^verbatim>\<open>\s\<close> matches in a \<^verbatim>\<open>str\<close> pattern (U+0009..U+000D, U+001C..U+0020, U+0085,
  U+00A0, U+1680, U+2000..U+200A, U+2028, U+2029, U+202F, U+205F, U+3000).
\<close>

definition py_isspace :: "nat \<Rightarrow> bool" where
  "py_isspace c \<longleftrightarrow>
     (9 \<le> c \<and> c \<le> 13) \<or> (28 \<le> c \<and> c \<le> 32) \<or> c = 133 \<or> c = 160 \<or> c = 5760 \<or>
     (8192 \<le> c \<and> c \<le> 8202) \<or> c = 8232 \<or> c = 8233 \<or> c = 8239 \<or> c = 8287 \<or>
     c = 12288"

definition py_strip :: "pystr \<Rightarrow> pystr" where
  "py_strip s = rev (dropWhile py_isspace (rev (dropWhile py_isspace s)))"

text \<open>
  \<^verbatim>\<open>.encode('ascii', 'ignore').decode('ascii')\<close> drops every code point above 127;
  \<^verbatim>\<open>.lower()\<close> is only ever applied to such a string in \<open>normalize_name\<close>, and to
  look for the ASCII word \<^verbatim>\<open>captcha\<close> in the fetchers.
\<close>

definition encode_ascii_ignore :: "pystr \<Rightarrow> pystr" where
  "encode_ascii_ignore s = filter (\<lambda>c. c < 128) s"

definition py_lower_ascii :: "pystr \<Rightarrow> pystr" where
  "py_lower_ascii s = map (\<lambda>c. if 65 \<le> c \<and> c \<le> 90 then c + 32 else c) s"

text \<open>\<^verbatim>\<open>sep.join(parts)\<close>.\<close>

fun py_join :: "pystr \<Rightarrow> pystr list \<Rightarrow> pystr" where
  "py_join sep [] = []"
| "py_join sep [p] = p"
| "py_join sep (p # q # ps) = p @ sep @ py_join sep (q # ps)"

text \<open>
  \<^verbatim>\<open>s.split(sep)\<close> for a one-character separator: every occurrence cuts, so empty
  pieces appear between adjacent separators and at both ends.
\<close>

fun py_split :: "nat \<Rightarrow> pystr \<Rightarrow> pystr list" where
  "py_split sep [] = [[]]"
| "py_split sep (c # cs) =
     (if c = sep then [] # py_split sep cs
      else (case py_split sep cs of
              [] \<Rightarrow> [[c]]
            | p # ps \<Rightarrow> (c # p) # ps))"

definition py_replace :: "nat \<Rightarrow> nat \<Rightarrow> pystr \<Rightarrow> pystr" where
  "py_replace old new s = map (\<lambda>c. if c = old then new else c) s"

text \<open>
  \<^verbatim>\<open>re.split(r'[...]+', s)\<close> for a character class \<open>sep\<close>: every maximal run of
  separator characters cuts once, so only the first and the last piece can be empty.
\<close>

function re_split :: "(nat \<Rightarrow> bool) \<Rightarrow> pystr \<Rightarrow> pystr list" where
  "re_split sep [] = [[]]"
| "re_split sep (c # cs) =
     (if sep c then [] # re_split sep (dropWhile sep cs)
      else (case re_split sep cs of
              [] \<Rightarrow> [[c]]
            | p # ps \<Rightarrow> (c # p) # ps))"
  by pat_completeness auto
termination
  by (relation "measure (\<lambda>(sep, s). length s)")
     (auto simp: le_imp_less_Suc length_dropWhile_le)

section \<open>Name normalizer and matcher (filter-results.py, class NameMatcher)\<close>

text \<open>
  The character class \<^verbatim>\<open>[.\s-]\<close> of \<open>normalize_name\<close>: a period (46), white space,
  or a hyphen (45).
\<close>

definition name_sep :: "nat \<Rightarrow> bool" where
  "name_sep c \<longleftrightarrow> c = 46 \<or> py_isspace c \<or> c = 45"

definition suffixes :: "pystr list" where
  "suffixes = map ustr [''jr'', ''sr'', ''ii'', ''iii'', ''iv'', ''v'', ''md'', ''phd'',
     ''rn'', ''np'', ''pa'']"

definition prefixes :: "pystr list" where
  "prefixes = map ustr [''dr'', ''mr'', ''mrs'', ''ms'', ''miss'']"

text \<open>
  \<open>normalize_name\<close>. The Unicode decomposition \<^verbatim>\<open>unicodedata.normalize('NFKD', _)\<close> is a
  table of the Unicode database, not of this repository: it is the parameter \<open>nfkd\<close>.
\<close>

definition normalize_name :: "(pystr \<Rightarrow> pystr) \<Rightarrow> pystr \<Rightarrow> pystr" where
  "normalize_name nfkd name =
     (if name = [] then []
      else
        let name1 = encode_ascii_ignore (nfkd name);
            name2 = py_strip (py_lower_ascii name1);
            parts = re_split name_sep name2;
            named = filter (\<lambda>p. p \<noteq> [] \<and> p \<notin> set (suffixes @ prefixes)) parts
        in py_join [32] named)"

text \<open>The order-preserving removal of duplicates that ends \<open>get_name_variations\<close>.\<close>

fun unique_variations :: "'a list \<Rightarrow> 'a list \<Rightarrow> 'a list" where
  "unique_variations seen [] = []"
| "unique_variations seen (v # vs) =
     (if v \<in> set seen then unique_variations seen vs
      else v # unique_variations (v # seen) vs)"

definition get_name_variations ::
    "(pystr \<Rightarrow> pystr) \<Rightarrow> pystr \<Rightarrow> pystr \<Rightarrow> (pystr \<times> pystr) list" where
  "get_name_variations nfkd first_name last_name =
     (let norm_first = normalize_name nfkd first_name;
          norm_last = normalize_name nfkd last_name;
          hyph_first =
            (if 45 \<in> set norm_first
             then map (\<lambda>part. (part, norm_last)) (py_split 45 norm_first)
                  @ [(py_replace 45 32 norm_first, norm_last)]
             else []);
          hyph_last =
            (if 45 \<in> set norm_last
             then map (\<lambda>part. (norm_first, part)) (py_split 45 norm_last)
                  @ [(norm_first, py_replace 45 32 norm_last)]
             else []);
          hyph_both =
            (if 45 \<in> set norm_first \<and> 45 \<in> set norm_last
             then concat (map (\<lambda>fp. map (\<lambda>lp. (fp, lp)) (py_split 45 norm_last))
                    (py_split 45 norm_first))
             else [])
      in unique_variations []
           (hyph_first @ hyph_last @ hyph_both @ [(norm_first, norm_last)]))"

text \<open>
  A JSON object or a CSV row whose values are strings, as an association list;
  \<open>dict_get d k dflt\<close> is \<^verbatim>\<open>d.get(k, dflt)\<close>.
\<close>

type_synonym pydict = "(pystr \<times> pystr) list"

definition dict_get :: "pydict \<Rightarrow> string \<Rightarrow> pystr \<Rightarrow> pystr" where
  "dict_get d k dflt = (case map_of d (ustr k) of None \<Rightarrow> dflt | Some v \<Rightarrow> v)"

text \<open>
  The nested loops of \<open>check_name_match\<close>: the first license variation, in list order,
  that equals some variation of the obituary name.
\<close>

fun first_match ::
    "(pystr \<times> pystr) list \<Rightarrow> (pystr \<times> pystr) list \<Rightarrow> (pystr \<times> pystr) option" where
  "first_match [] obit_variations = None"
| "first_match ((lic_first, lic_last) # rest) obit_variations =
     (if list_ex (\<lambda>(obit_f, obit_l). lic_first = obit_f \<and> lic_last = obit_l) obit_variations
      then Some (lic_first, lic_last)
      else first_match rest obit_variations)"

definition match_reason :: "string \<Rightarrow> pystr \<times> pystr \<Rightarrow> pystr" where
  "match_reason label v = ustr label @ fst v @ [32] @ snd v"

definition check_name_match ::
    "(pystr \<Rightarrow> pystr) \<Rightarrow> pystr \<Rightarrow> pystr \<Rightarrow> pydict \<Rightarrow> bool \<times> pystr" where
  "check_name_match nfkd license_first license_last obit_name_obj =
     (if obit_name_obj = [] then (False, ustr ''No name object'')
      else
        let obit_first = dict_get obit_name_obj ''firstName'' [];
            obit_last = dict_get obit_name_obj ''lastName'' [];
            obit_middle = dict_get obit_name_obj ''middleName'' [];
            obit_nick = dict_get obit_name_obj ''nickName'' [];
            obit_maiden = dict_get obit_name_obj ''maidenName'' [];
            license_variations = get_name_variations nfkd license_first license_last;
            obit_variations = get_name_variations nfkd obit_first obit_last
        in
        case first_match license_variations obit_variations of
          Some v \<Rightarrow> (True, match_reason ''Exact match: '' v)
        | None \<Rightarrow>
        (case (if obit_middle \<noteq> []
               then first_match license_variations
                      (get_name_variations nfkd obit_middle obit_last)
               else None) of
          Some v \<Rightarrow> (True, match_reason ''Middle name match: '' v)
        | None \<Rightarrow>
        (case (if obit_nick \<noteq> []
               then first_match license_variations
                      (get_name_variations nfkd obit_nick obit_last)
               else None) of
          Some v \<Rightarrow> (True, match_reason ''Nickname match: '' v)
        | None \<Rightarrow>
        (case (if obit_maiden \<noteq> []
               then first_match license_variations
                      (get_name_variations nfkd obit_first obit_maiden)
               else None) of
          Some v \<Rightarrow> (True, match_reason ''Maiden name match: '' v)
        | None \<Rightarrow>
            (False, ustr ''No match found. License: '' @ license_first @ [32] @ license_last
                    @ ustr '', Obit: '' @ obit_first @ [32] @ obit_last)))))"

text \<open>
  On a string of ASCII code points NFKD changes nothing (no code point below 128 has a
  decomposition), so closed examples over ASCII names run with the identity.
\<close>

definition nfkd_ascii :: "pystr \<Rightarrow> pystr" where
  "nfkd_ascii s = s"

text \<open>
  The matching strategies as the specification words them, in its priority order: which
  optional field a strategy needs (a field that is absent or empty is what the source's
  \<^verbatim>\<open>if obit_middle:\<close> skips), which two fields of the record it compares
  with, and the label of its reason. A strategy succeeds when some variation of the
  candidate equals some variation of that pair.
\<close>

datatype strategy = Exact | MiddleAsFirst | NicknameAsFirst | MaidenAsLast

definition strategy_order :: "strategy list" where
  "strategy_order = [Exact, MiddleAsFirst, NicknameAsFirst, MaidenAsLast]"

fun strategy_present :: "pydict \<Rightarrow> strategy \<Rightarrow> bool" where
  "strategy_present r Exact = True"
| "strategy_present r MiddleAsFirst = (dict_get r ''middleName'' [] \<noteq> [])"
| "strategy_present r NicknameAsFirst = (dict_get r ''nickName'' [] \<noteq> [])"
| "strategy_present r MaidenAsLast = (dict_get r ''maidenName'' [] \<noteq> [])"

fun strategy_names :: "pydict \<Rightarrow> strategy \<Rightarrow> pystr \<times> pystr" where
  "strategy_names r Exact = (dict_get r ''firstName'' [], dict_get r ''lastName'' [])"
| "strategy_names r MiddleAsFirst = (dict_get r ''middleName'' [], dict_get r ''lastName'' [])"
| "strategy_names r NicknameAsFirst = (dict_get r ''nickName'' [], dict_get r ''lastName'' [])"
| "strategy_names r MaidenAsLast = (dict_get r ''firstName'' [], dict_get r ''maidenName'' [])"

fun strategy_label :: "strategy \<Rightarrow> string" where
  "strategy_label Exact = ''Exact match: ''"
| "strategy_label MiddleAsFirst = ''Middle name match: ''"
| "strategy_label NicknameAsFirst = ''Nickname match: ''"
| "strategy_label MaidenAsLast = ''Maiden name match: ''"

definition strategy_succeeds ::
    "(pystr \<Rightarrow> pystr) \<Rightarrow> pystr \<Rightarrow> pystr \<Rightarrow> pydict \<Rightarrow> strategy \<Rightarrow> bool" where
  "strategy_succeeds nfkd cand_first cand_last r s \<longleftrightarrow>
     strategy_present r s \<and>
     (\<exists>v \<in> set (get_name_variations nfkd cand_first cand_last).
        v \<in> set (get_name_variations nfkd (fst (strategy_names r s))
                   (snd (strategy_names r s))))"

section \<open>Row eligibility (main.py, main-parallel.py)\<close>

text \<open>
  \<^verbatim>\<open>int(s)\<close> for a string. White space is skipped at both ends (the ASCII blanks
  and the white space above U+007F; the separators U+001C..U+001F are not skipped), then
  comes an optional sign and a run of decimal digits in which single underscores may
  stand between digits. Below U+007F the digits are \<^verbatim>\<open>0\<close>..\<^verbatim>\<open>9\<close>; the decimal
  digits of other scripts are a table of the Unicode database, the parameter
  \<open>decimal\<close>. \<open>None\<close> is \<^verbatim>\<open>ValueError\<close>. The interpreter's limit on the number of
  digits is not modelled.
\<close>

definition int_space :: "nat \<Rightarrow> bool" where
  "int_space c \<longleftrightarrow> py_isspace c \<and> \<not> (28 \<le> c \<and> c \<le> 31)"

definition digit_value :: "(nat \<Rightarrow> nat option) \<Rightarrow> nat \<Rightarrow> nat option" where
  "digit_value decimal c =
     (if c < 127 then (if 48 \<le> c \<and> c \<le> 57 then Some (c - 48) else None)
      else decimal c)"

fun parse_digits :: "(nat \<Rightarrow> nat option) \<Rightarrow> nat \<Rightarrow> pystr \<Rightarrow> nat option" where
  "parse_digits decimal acc [] = Some acc"
| "parse_digits decimal acc [c] =
     (case digit_value decimal c of None \<Rightarrow> None | Some v \<Rightarrow> Some (10 * acc + v))"
| "parse_digits decimal acc (c # d # ds) =
     (if c = 95 then
        (case digit_value decimal d of
           None \<Rightarrow> None
         | Some v \<Rightarrow> parse_digits decimal (10 * acc + v) ds)
      else
        (case digit_value decimal c of
           None \<Rightarrow> None
         | Some v \<Rightarrow> parse_digits decimal (10 * acc + v) (d # ds)))"

definition py_int :: "(nat \<Rightarrow> nat option) \<Rightarrow> pystr \<Rightarrow> int option" where
  "py_int decimal s =
     (let t = rev (dropWhile int_space (rev (dropWhile int_space s)));
          negative = (case t of [] \<Rightarrow> False | c # _ \<Rightarrow> c = 45);
          body = (case t of [] \<Rightarrow> [] | c # cs \<Rightarrow> if c = 43 \<or> c = 45 then cs else t)
      in case body of
           [] \<Rightarrow> None
         | c # cs \<Rightarrow>
             (case digit_value decimal c of
                None \<Rightarrow> None
              | Some v \<Rightarrow>
                  (case parse_digits decimal v cs of
                     None \<Rightarrow> None
                   | Some n \<Rightarrow> Some (if negative then - int n else int n))))"

text \<open>
  The year of an expiration date: the last piece of the date cut at \<^verbatim>\<open>/\<close> (47) if it
  has one, else at \<^verbatim>\<open>-\<close> (45) if it has one. \<open>None\<close> is a row that is skipped
  (neither separator, or \<^verbatim>\<open>int\<close> raises). \<open>py_split\<close> never returns the empty list, so
  the index \<^verbatim>\<open>[-1]\<close> always exists.
\<close>

definition expiration_year :: "(nat \<Rightarrow> nat option) \<Rightarrow> pystr \<Rightarrow> int option" where
  "expiration_year decimal exp_date =
     (if 47 \<in> set exp_date then py_int decimal (last (py_split 47 exp_date))
      else if 45 \<in> set exp_date then py_int decimal (last (py_split 45 exp_date))
      else None)"

text \<open>
  The expiration-date part of the filter, the same text in \<open>process_licenses\<close> and in
  \<open>filter_valid_rows\<close>: \<open>True\<close> when none of its \<^verbatim>\<open>continue\<close> statements is taken.
\<close>

definition expiration_ok :: "(nat \<Rightarrow> nat option) \<Rightarrow> pydict \<Rightarrow> bool" where
  "expiration_ok decimal row =
     (let exp_date = py_strip (dict_get row ''Expiration Date'' [])
      in if exp_date = [] then False
         else (case expiration_year decimal exp_date of
                 None \<Rightarrow> False
               | Some year \<Rightarrow> \<not> year \<le> 2023))"

text \<open>The name part of the filter (\<open>process_licenses\<close>, \<open>process_batch\<close>).\<close>

definition names_ok :: "pydict \<Rightarrow> bool" where
  "names_ok row =
     (let first_name = py_strip (dict_get row ''First Name'' []);
          last_name = py_strip (dict_get row ''Last Name'' [])
      in \<not> (first_name = [] \<or> last_name = [] \<or> length first_name < 2 \<or> length last_name < 2))"

text \<open>\<open>filter_valid_rows\<close>: the rows that pass the date filter, with their indices.\<close>

definition filter_valid_rows :: "(nat \<Rightarrow> nat option) \<Rightarrow> pydict list \<Rightarrow> (nat \<times> pydict) list" where
  "filter_valid_rows decimal rows =
     filter (\<lambda>(idx, row). expiration_ok decimal row) (enumerate 0 rows)"

text \<open>
  Dates written with ASCII digits: \<open>is_digit\<close> is a digit character, \<open>number4\<close> and
  \<open>number2\<close> are the numbers that four and two digit characters spell. A table with no
  further digits serves closed examples, whose dates are ASCII.
\<close>

definition is_digit :: "nat \<Rightarrow> bool" where
  "is_digit c \<longleftrightarrow> 48 \<le> c \<and> c \<le> 57"

definition number4 :: "nat \<Rightarrow> nat \<Rightarrow> nat \<Rightarrow> nat \<Rightarrow> int" where
  "number4 a b c d = int (1000 * (a - 48) + 100 * (b - 48) + 10 * (c - 48) + (d - 48))"

definition number2 :: "nat \<Rightarrow> nat \<Rightarrow> int" where
  "number2 a b = int (10 * (a - 48) + (b - 48))"

definition no_decimal :: "nat \<Rightarrow> nat option" where
  "no_decimal c = None"

section \<open>The fetchers (main.py and main-parallel.py, \<open>search_legacy_obituary\<close>)\<close>

text \<open>
  What one HTTP attempt of a search can give: a reply with its status, its text and, for
  the body of a reply that is read as JSON, the value of \<^verbatim>\<open>totalRecordCount\<close> if the
  object has one; an exception of the class the fetcher retries on
  (\<^verbatim>\<open>requests.exceptions.RequestException\<close>, \<^verbatim>\<open>aiohttp.ClientError\<close>); a timeout (a
  \<^verbatim>\<open>RequestException\<close> as well in the sequential program, \<^verbatim>\<open>asyncio.TimeoutError\<close> in
  the concurrent one); or any other exception, which no handler of the fetchers catches
  (a body that is not the JSON object of the service ends an attempt in one of these).
  The remote service is the environment: a search is run against a function from the
  attempt number to what that attempt gives.
\<close>

datatype response =
    Reply nat pystr "int option"
  | TransportError
  | Timeout
  | OtherFailure

text \<open>What a search does besides returning: requests and sleeps, in order.\<close>

datatype effect = Get nat | Sleep nat

text \<open>
  The exceptions that leave the sequential \<open>search_legacy_obituary\<close> or the body of
  the loop of \<open>process_licenses\<close>, and the text \<^verbatim>\<open>str(e)\<close> saved with the progress.
  \<open>OutCsvUndefined\<close> is the \<^verbatim>\<open>NameError\<close> of \<^verbatim>\<open>out_csv.flush()\<close>: \<^verbatim>\<open>out_csv\<close> is a
  local variable of \<open>main\<close>, not a name \<open>process_licenses\<close> can see. \<open>Unexpected\<close>
  stands for any other exception; its text is whatever that exception says.
\<close>

datatype run_error = RateLimited | Blocked | CaptchaRequired | Unexpected | OutCsvUndefined

fun error_text :: "run_error \<Rightarrow> string" where
  "error_text RateLimited = ''Rate limited - max retries exceeded''"
| "error_text Blocked = ''Blocked by server''"
| "error_text CaptchaRequired = ''Captcha required''"
| "error_text Unexpected = ''(the text of the exception)''"
| "error_text OutCsvUndefined = ''name 'out_csv' is not defined''"

datatype 'a outcome = Returned 'a | Raised run_error

text \<open>
  \<^verbatim>\<open>"captcha" in text.lower()\<close>. No code point outside ASCII lowers to one of the
  letters of the word, so lowering the ASCII letters decides the test.
\<close>

fun py_contains :: "pystr \<Rightarrow> pystr \<Rightarrow> bool" where
  "py_contains sub [] = (sub = [])"
| "py_contains sub (c # cs) = (take (length sub) (c # cs) = sub \<or> py_contains sub cs)"

definition has_captcha :: "pystr \<Rightarrow> bool" where
  "has_captcha text = py_contains (ustr ''captcha'') (py_lower_ascii text)"

text \<open>\<^verbatim>\<open>data.get("totalRecordCount", 0) > 0\<close>.\<close>

definition records_found :: "int option \<Rightarrow> bool" where
  "records_found record_count = (0 < (case record_count of None \<Rightarrow> 0 | Some n \<Rightarrow> n))"

text \<open>Puts the effects of an attempt before those of the attempts that follow it.\<close>

definition after :: "effect list \<Rightarrow> 'a \<times> effect list \<Rightarrow> 'a \<times> effect list" where
  "after es r = (fst r, es @ snd r)"

text \<open>
  The loop \<^verbatim>\<open>for attempt in range(max_retries)\<close> of the sequential fetcher (main.py),
  from a given attempt on.
\<close>

function search_attempts ::
    "nat \<Rightarrow> (nat \<Rightarrow> response) \<Rightarrow> nat \<Rightarrow> bool outcome \<times> effect list" where
  "search_attempts max_retries http attempt =
     (if attempt < max_retries then
        (case http attempt of
           Reply status_code text record_count \<Rightarrow>
             if status_code = 429 then
               (if attempt < max_retries - 1
                then after [Get attempt, Sleep (2 ^ attempt * 60)]
                       (search_attempts max_retries http (Suc attempt))
                else (Raised RateLimited, [Get attempt]))
             else if status_code = 403 then (Raised Blocked, [Get attempt])
             else if has_captcha text then (Raised CaptchaRequired, [Get attempt])
             else if status_code \<noteq> 200 then
               (if attempt < max_retries - 1
                then after [Get attempt, Sleep 5]
                       (search_attempts max_retries http (Suc attempt))
                else (Returned False, [Get attempt]))
             else (Returned (records_found record_count), [Get attempt])
         | TransportError \<Rightarrow>
             (if attempt < max_retries - 1
              then after [Get attempt, Sleep 5]
                     (search_attempts max_retries http (Suc attempt))
              else (Returned False, [Get attempt]))
         | Timeout \<Rightarrow>
             (if attempt < max_retries - 1
              then after [Get attempt, Sleep 5]
                     (search_attempts max_retries http (Suc attempt))
              else (Returned False, [Get attempt]))
         | OtherFailure \<Rightarrow> (Raised Unexpected, [Get attempt]))
      else (Returned False, []))"
  by pat_completeness auto
termination
  by (relation "measure (\<lambda>(max_retries, http, attempt). max_retries - attempt)") auto

declare search_attempts.simps [simp del]

definition search_legacy_obituary ::
    "nat \<Rightarrow> (nat \<Rightarrow> response) \<Rightarrow> bool outcome \<times> effect list" where
  "search_legacy_obituary max_retries http = search_attempts max_retries http 0"

text \<open>
  The concurrent fetcher (main-parallel.py) ends in one of three ways: it reaches the
  locked section, which counts the row and appends it to the results when it was found,
  and returns \<^verbatim>\<open>(found, row_data)\<close>; it returns \<^verbatim>\<open>(False, row_data)\<close> without
  counting; or an exception leaves it.
\<close>

datatype task_end = Counted bool | NotCounted | Escaped

function async_attempts ::
    "nat \<Rightarrow> (nat \<Rightarrow> response) \<Rightarrow> nat \<Rightarrow> task_end \<times> effect list" where
  "async_attempts max_retries http attempt =
     (if attempt < max_retries then
        (case http attempt of
           Reply status text record_count \<Rightarrow>
             if status = 429 then
               after [Get attempt, Sleep (2 ^ attempt * 30)]
                 (async_attempts max_retries http (Suc attempt))
             else if status = 403 then (NotCounted, [Get attempt])
             else if has_captcha text then (NotCounted, [Get attempt])
             else if status \<noteq> 200 then
               (if attempt < max_retries - 1
                then after [Get attempt, Sleep 5]
                       (async_attempts max_retries http (Suc attempt))
                else (NotCounted, [Get attempt]))
             else (Counted (records_found record_count), [Get attempt])
         | TransportError \<Rightarrow>
             (if attempt < max_retries - 1
              then after [Get attempt, Sleep 5]
                     (async_attempts max_retries http (Suc attempt))
              else (NotCounted, [Get attempt]))
         | Timeout \<Rightarrow>
             (if attempt < max_retries - 1
              then after [Get attempt, Sleep 5]
                     (async_attempts max_retries http (Suc attempt))
              else (NotCounted, [Get attempt]))
         | OtherFailure \<Rightarrow> (Escaped, [Get attempt]))
      else (NotCounted, []))"
  by pat_completeness auto
termination
  by (relation "measure (\<lambda>(max_retries, http, attempt). max_retries - attempt)") auto

declare async_attempts.simps [simp del]

definition async_search :: "nat \<Rightarrow> (nat \<Rightarrow> response) \<Rightarrow> task_end \<times> effect list" where
  "async_search max_retries http = async_attempts max_retries http 0"

section \<open>Checkpoints and the two schedulers\<close>

text \<open>
  The JSON document \<open>save_progress\<close> writes: the index, the path of the input file and
  the additional data of the call (both counters always, \<^verbatim>\<open>error\<close> or \<^verbatim>\<open>completed\<close> in
  some calls). The time stamp, read from the clock, is left out.
\<close>

record progress =
  last_processed_index :: int
  file_path :: pystr
  saved_total_found :: nat
  saved_total_processed :: nat
  error :: "run_error option"
  completed :: bool

text \<open>
  The text that \<^verbatim>\<open>json.dump(progress_data, pf, indent=2)\<close> writes. An integer is written
  in decimal. A string is written between double quotes, every character outside the
  printable ASCII range, the double quote and the backslash escaped
  (\<^verbatim>\<open>ensure_ascii\<close> is on by default; a code point above U+FFFF becomes a surrogate
  pair). The members stand one per line, indented by two spaces, in the order of their
  insertion into the dictionary: index, time stamp, path, then the additional data.
  The text is pure ASCII, so a character of it is a byte of the file. The string of the
  \<^verbatim>\<open>error\<close> member is \<open>error_text\<close>; what is proved of the text below holds for every
  list of members, whatever their strings are.
\<close>

fun py_repr_nat :: "nat \<Rightarrow> pystr" where
  "py_repr_nat n = (if n < 10 then [48 + n] else py_repr_nat (n div 10) @ [48 + n mod 10])"

declare py_repr_nat.simps [simp del]

definition py_repr_int :: "int \<Rightarrow> pystr" where
  "py_repr_int i = (if i < 0 then 45 # py_repr_nat (nat (- i)) else py_repr_nat (nat i))"

definition hex_digit :: "nat \<Rightarrow> nat" where
  "hex_digit d = (if d < 10 then 48 + d else 87 + d)"

definition hex4 :: "nat \<Rightarrow> pystr" where
  "hex4 n = [hex_digit (n div 4096 mod 16), hex_digit (n div 256 mod 16),
             hex_digit (n div 16 mod 16), hex_digit (n mod 16)]"

definition json_escape :: "nat \<Rightarrow> pystr" where
  "json_escape c =
     (if c = 34 then [92, 34]
      else if c = 92 then [92, 92]
      else if c = 10 then [92, 110]
      else if c = 13 then [92, 114]
      else if c = 9 then [92, 116]
      else if c = 12 then [92, 102]
      else if c = 8 then [92, 98]
      else if 32 \<le> c \<and> c \<le> 126 then [c]
      else if c < 65536 then [92, 117] @ hex4 c
      else [92, 117] @ hex4 (55296 + (c - 65536) div 1024 mod 1024)
           @ [92, 117] @ hex4 (56320 + (c - 65536) mod 1024))"

definition json_string :: "pystr \<Rightarrow> pystr" where
  "json_string s = 34 # concat (map json_escape s) @ [34]"

datatype json_value = JInt int | JStr pystr | JTrue

fun json_value_text :: "json_value \<Rightarrow> pystr" where
  "json_value_text (JInt i) = py_repr_int i"
| "json_value_text (JStr s) = json_string s"
| "json_value_text JTrue = ustr ''true''"

definition json_member :: "string \<times> json_value \<Rightarrow> pystr" where
  "json_member m = json_string (ustr (fst m)) @ [58, 32] @ json_value_text (snd m)"

definition json_object :: "(string \<times> json_value) list \<Rightarrow> pystr" where
  "json_object members =
     (if members = [] then [123, 125]
      else [123] @ [10, 32, 32] @ py_join [44, 10, 32, 32] (map json_member members)
           @ [10] @ [125])"

definition progress_members :: "pystr \<Rightarrow> progress \<Rightarrow> (string \<times> json_value) list" where
  "progress_members timestamp p =
     [(''last_processed_index'', JInt (last_processed_index p)),
      (''timestamp'', JStr timestamp),
      (''file_path'', JStr (file_path p)),
      (''total_found'', JInt (int (saved_total_found p))),
      (''total_processed'', JInt (int (saved_total_processed p)))]
     @ (case error p of None \<Rightarrow> [] | Some e \<Rightarrow> [(''error'', JStr (ustr (error_text e)))])
     @ (if completed p then [(''completed'', JTrue)] else [])"

definition json_dumps :: "pystr \<Rightarrow> progress \<Rightarrow> pystr" where
  "json_dumps timestamp p = json_object (progress_members timestamp p)"

text \<open>
  What every text that \<^verbatim>\<open>json.load\<close> accepts has: a character that is not white space,
  every string literal closed, and outside the string literals as many closing as opening
  brackets. \<open>json_step\<close> reads one character in the state (inside a string literal, after
  a backslash, number of brackets open). \<^verbatim>\<open>json.load\<close> raises \<^verbatim>\<open>JSONDecodeError\<close> on
  every text that is not \<open>json_balanced\<close>; the converse does not hold and is not used.
\<close>

type_synonym scan_state = "bool \<times> bool \<times> int"

fun json_step :: "scan_state \<Rightarrow> nat \<Rightarrow> scan_state" where
  "json_step (in_string, escaped, depth) c =
     (if in_string then
        (if escaped then (True, False, depth)
         else if c = 92 then (True, True, depth)
         else if c = 34 then (False, False, depth)
         else (True, False, depth))
      else if c = 34 then (True, False, depth)
      else if c = 123 \<or> c = 91 then (False, False, depth + 1)
      else if c = 125 \<or> c = 93 then (False, False, depth - 1)
      else (False, False, depth))"

definition json_scan :: "scan_state \<Rightarrow> pystr \<Rightarrow> scan_state" where
  "json_scan st chars = foldl json_step st chars"

definition json_ws :: "nat \<Rightarrow> bool" where
  "json_ws c = (c = 32 \<or> c = 9 \<or> c = 10 \<or> c = 13)"

definition json_balanced :: "pystr \<Rightarrow> bool" where
  "json_balanced chars =
     (list_ex (\<lambda>c. \<not> json_ws c) chars \<and> json_scan (False, False, 0) chars = (False, False, 0))"

text \<open>
  The progress file of one input file, as \<open>load_progress\<close> reads it. \<open>Torn\<close> is a file
  whose content \<^verbatim>\<open>json.load\<close> rejects; \<open>Document p\<close> is a file that holds the whole text
  of the document of \<open>p\<close>.
\<close>

datatype file_content = Missing | Torn | Document progress

text \<open>
  \<open>load_progress\<close>: \<^verbatim>\<open>FileNotFoundError\<close> and \<^verbatim>\<open>json.JSONDecodeError\<close> both give 0.
\<close>

fun load_progress :: "file_content \<Rightarrow> int" where
  "load_progress Missing = 0"
| "load_progress Torn = 0"
| "load_progress (Document p) = last_processed_index p"

text \<open>
  \<open>save_progress\<close> builds the dictionary, reading the clock for the time stamp, then
  opens the progress file itself for writing, which empties it, dumps the document into
  it through the one buffered file object and closes it; there is no other file and no
  rename. \<open>save_progress_until\<close> is the content of the progress file when the process
  stops at a given point of the call:

  \<^item> \<open>Preparing\<close>: before \<^verbatim>\<open>open\<close>; the file is as it was.
  \<^item> \<open>Writing timestamp n\<close>: after \<^verbatim>\<open>open\<close>, the clock having given \<open>timestamp\<close> and
    the first \<open>n\<close> characters of the text having reached the file (none right after
    \<^verbatim>\<open>open\<close>, and none before the buffer is flushed; all of them once it is). The file
    is read back as the document if this prefix is \<open>json_balanced\<close> and is rejected
    otherwise; the theorems below show that the only balanced prefix is the whole text.
  \<^item> \<open>Closed\<close>: after the \<^verbatim>\<open>with\<close> block has closed the file, up to and including the
    return of the call (\<^verbatim>\<open>main-test.py\<close> prints a line in between).

  Writes that the operating system refuses are not modelled.
\<close>

datatype save_stage = Preparing | Writing pystr nat | Closed

definition progress_data ::
    "pystr \<Rightarrow> int \<Rightarrow> nat \<Rightarrow> nat \<Rightarrow> run_error option \<Rightarrow> bool \<Rightarrow> progress" where
  "progress_data path idx found processed err fin =
     \<lparr>last_processed_index = idx, file_path = path, saved_total_found = found,
      saved_total_processed = processed, error = err, completed = fin\<rparr>"

fun save_progress_until :: "save_stage \<Rightarrow> progress \<Rightarrow> file_content \<Rightarrow> file_content" where
  "save_progress_until Preparing p old = old"
| "save_progress_until (Writing timestamp n) p old =
     (if json_balanced (take n (json_dumps timestamp p)) then Document p else Torn)"
| "save_progress_until Closed p old = Document p"

definition save_progress ::
    "pystr \<Rightarrow> int \<Rightarrow> nat \<Rightarrow> nat \<Rightarrow> run_error option \<Rightarrow> bool \<Rightarrow> file_content \<Rightarrow> file_content" where
  "save_progress path idx found processed err fin old =
     save_progress_until Closed (progress_data path idx found processed err fin) old"

text \<open>
  The state of a run: the two counters, the result buffer of the concurrent searcher,
  the rows appended to the output file (each with its index in the input, which the file
  itself does not hold), the progress file, and the indices of the rows a search was
  started for.
\<close>

record run_state =
  total_found :: nat
  total_processed :: nat
  results :: "(nat \<times> pydict) list"
  written :: "(nat \<times> pydict) list"
  progress_file :: file_content
  searched :: "nat list"

definition initial_state :: "file_content \<Rightarrow> run_state" where
  "initial_state cp =
     \<lparr>total_found = 0, total_processed = 0, results = [], written = [],
      progress_file = cp, searched = []\<rparr>"

text \<open>
  The loop of \<open>process_licenses\<close> (main.py) from row \<open>idx\<close> on; \<open>web idx\<close> is what the
  service answers to the attempts of the search for row \<open>idx\<close>. The result is \<open>False\<close>
  with the state at the \<^verbatim>\<open>return False\<close> of the handler, or \<open>True\<close> with the state
  after the last row. A search that finds the row writes it and then raises at
  \<^verbatim>\<open>out_csv.flush()\<close>, inside the \<^verbatim>\<open>try\<close>, so the handler saves the progress and the
  loop ends there. The pause between rows is left out.
\<close>

fun process_rows ::
    "(nat \<Rightarrow> nat option) \<Rightarrow> (nat \<Rightarrow> nat \<Rightarrow> response) \<Rightarrow> pystr \<Rightarrow> int \<Rightarrow> nat \<Rightarrow>
     pydict list \<Rightarrow> run_state \<Rightarrow> bool \<times> run_state" where
  "process_rows decimal web path start_idx idx [] st = (True, st)"
| "process_rows decimal web path start_idx idx (row # rows) st =
     (if int idx < start_idx then process_rows decimal web path start_idx (Suc idx) rows st
      else if \<not> expiration_ok decimal row
        then process_rows decimal web path start_idx (Suc idx) rows st
      else if \<not> names_ok row
        then process_rows decimal web path start_idx (Suc idx) rows st
      else
        (case fst (search_legacy_obituary 3 (web idx)) of
           Raised e \<Rightarrow>
             (False, st\<lparr>searched := searched st @ [idx],
                progress_file := save_progress path (int idx) (total_found st)
                  (total_processed st) (Some e) False (progress_file st)\<rparr>)
         | Returned found \<Rightarrow>
             if found then
               (False, st\<lparr>searched := searched st @ [idx],
                  total_processed := Suc (total_processed st),
                  total_found := Suc (total_found st),
                  written := written st @ [(idx, row)],
                  progress_file := save_progress path (int idx) (Suc (total_found st))
                    (Suc (total_processed st)) (Some OutCsvUndefined) False
                    (progress_file st)\<rparr>)
             else
               process_rows decimal web path start_idx (Suc idx) rows
                 (st\<lparr>searched := searched st @ [idx],
                    total_processed := Suc (total_processed st),
                    progress_file :=
                      (if Suc (total_processed st) mod 10 = 0
                       then save_progress path (int idx) (total_found st)
                              (Suc (total_processed st)) None False (progress_file st)
                       else progress_file st)\<rparr>)))"

definition process_licenses ::
    "(nat \<Rightarrow> nat option) \<Rightarrow> (nat \<Rightarrow> nat \<Rightarrow> response) \<Rightarrow> pystr \<Rightarrow> pydict list \<Rightarrow>
     file_content \<Rightarrow> bool \<times> run_state" where
  "process_licenses decimal web path rows cp =
     (let start_idx = load_progress cp;
          r = process_rows decimal web path start_idx 0 rows (initial_state cp)
      in if fst r
         then (True, (snd r)\<lparr>progress_file :=
                 save_progress path (int (length rows)) (total_found (snd r))
                   (total_processed (snd r)) None True (progress_file (snd r))\<rparr>)
         else (False, snd r))"

text \<open>
  The concurrent program. A task that reaches the locked section updates the counters
  and the result buffer there, in one step; the other ends of a task change nothing.
\<close>

definition complete_task ::
    "(nat \<Rightarrow> nat \<Rightarrow> response) \<Rightarrow> nat \<Rightarrow> run_state \<Rightarrow> nat \<times> pydict \<Rightarrow> run_state" where
  "complete_task web max_retries st task =
     (case fst (async_search max_retries (web (fst task))) of
        Counted found \<Rightarrow>
          st\<lparr>total_processed := Suc (total_processed st),
             total_found := (if found then Suc (total_found st) else total_found st),
             results := (if found then results st @ [task] else results st)\<rparr>
      | NotCounted \<Rightarrow> st
      | Escaped \<Rightarrow> st)"

text \<open>
  The order in which the tasks of a batch end. The tasks enter the semaphore in the order
  of the batch, \<open>max_concurrent\<close> at a time, so the tasks in flight are the first
  \<open>max_concurrent\<close> of those that have not ended; which of them ends next depends on the
  delays and on the network, and is read from a list of choices (a missing choice is 0).
  With \<open>max_concurrent = 0\<close> no task ever ends.
\<close>

function completion_order :: "nat \<Rightarrow> nat list \<Rightarrow> 'a list \<Rightarrow> 'a list" where
  "completion_order max_concurrent choices pending =
     (let in_flight = min max_concurrent (length pending)
      in if in_flight = 0 then []
         else
           let k = (case choices of [] \<Rightarrow> 0 | ch # _ \<Rightarrow> ch) mod in_flight
           in pending ! k #
              completion_order max_concurrent (tl choices) (take k pending @ drop (Suc k) pending))"
  by pat_completeness auto
termination
proof (relation "measure (\<lambda>(max_concurrent, choices, pending). length pending)")
  show "wf (measure (\<lambda>(max_concurrent, choices, pending). length pending))"
    by simp
next
  fix max_concurrent :: nat and choices :: "nat list" and pending :: "'a list"
    and in_flight k
  assume i: "in_flight = min max_concurrent (length pending)" "in_flight \<noteq> 0"
    and k: "k = (case choices of [] \<Rightarrow> 0 | ch # _ \<Rightarrow> ch) mod in_flight"
  from i k have "k < length pending"
    by (metis min.strict_boundedE mod_less_divisor neq0_conv min.cobounded2 less_le_trans)
  then show "((max_concurrent, tl choices, take k pending @ drop (Suc k) pending),
          (max_concurrent, choices, pending))
         \<in> measure (\<lambda>(max_concurrent, choices, pending). length pending)"
    by simp
qed

declare completion_order.simps [simp del]

text \<open>
  \<open>process_batch\<close>: one task for every row of the batch with usable names, then
  \<^verbatim>\<open>asyncio.gather\<close>, which returns when every task has ended (\<open>None\<close>: it never does)
  and drops what the tasks return or raise.
\<close>

definition process_batch ::
    "(nat \<Rightarrow> nat \<Rightarrow> response) \<Rightarrow> nat \<Rightarrow> nat \<Rightarrow> nat list \<Rightarrow> (nat \<times> pydict) list \<Rightarrow>
     run_state \<Rightarrow> run_state option" where
  "process_batch web max_concurrent max_retries choices batch_data st =
     (let tasks = filter (\<lambda>(idx, row). names_ok row) batch_data
      in if tasks \<noteq> [] \<and> max_concurrent = 0 then None
         else Some (foldl (complete_task web max_retries)
                      (st\<lparr>searched := searched st @ map fst tasks\<rparr>)
                      (completion_order max_concurrent choices tasks)))"

text \<open>
  The loop over the batches of \<open>process_licenses_async\<close>; \<open>sched n\<close> holds the choices of
  batch \<open>n\<close>. After a batch the progress is saved with the index of the last row of the
  batch, and the result buffer, if it is not empty, is appended to the output file in the
  order of the buffer and cleared.
\<close>

function process_batches ::
    "(nat \<Rightarrow> nat \<Rightarrow> response) \<Rightarrow> pystr \<Rightarrow> nat \<Rightarrow> nat \<Rightarrow> (nat \<Rightarrow> nat list) \<Rightarrow> nat \<Rightarrow>
     (nat \<times> pydict) list \<Rightarrow> run_state \<Rightarrow> run_state option" where
  "process_batches web path batch_size max_concurrent sched n valid_rows st =
     (if valid_rows = [] \<or> batch_size = 0 then Some st
      else
        let batch = take batch_size valid_rows;
            last_idx = fst (last batch)
        in case process_batch web max_concurrent 3 (sched n) batch st of
             None \<Rightarrow> None
           | Some st1 \<Rightarrow>
               let st2 = st1\<lparr>progress_file :=
                           save_progress path (int last_idx) (total_found st1)
                             (total_processed st1) None False (progress_file st1)\<rparr>;
                   st3 = (if results st2 \<noteq> []
                          then st2\<lparr>written := written st2 @ results st2, results := []\<rparr>
                          else st2)
               in process_batches web path batch_size max_concurrent sched (Suc n)
                    (drop batch_size valid_rows) st3)"
  by pat_completeness auto
termination
  by (relation "measure (\<lambda>(web, path, batch_size, max_concurrent, sched, n, valid_rows, st).
        length valid_rows)") auto

declare process_batches.simps [simp del]

text \<open>
  \<open>process_licenses_async\<close>. \<open>Some (Returned st)\<close> is a run that returns, \<open>Some (Raised e)\<close>
  one that an exception leaves (\<^verbatim>\<open>range\<close> refuses the step 0), \<open>None\<close> one that never
  returns.
\<close>

definition process_licenses_async ::
    "(nat \<Rightarrow> nat option) \<Rightarrow> (nat \<Rightarrow> nat \<Rightarrow> response) \<Rightarrow> pystr \<Rightarrow> pydict list \<Rightarrow> nat \<Rightarrow>
     nat \<Rightarrow> (nat \<Rightarrow> nat list) \<Rightarrow> file_content \<Rightarrow> run_state outcome option" where
  "process_licenses_async decimal web path all_rows batch_size max_concurrent sched cp =
     (let start_idx = load_progress cp;
          valid_rows = filter (\<lambda>(idx, row). start_idx \<le> int idx)
                         (filter_valid_rows decimal all_rows)
      in if valid_rows = [] then Some (Returned (initial_state cp))
         else if batch_size = 0 then Some (Raised Unexpected)
         else map_option Returned
                (process_batches web path batch_size max_concurrent sched 0 valid_rows
                   (initial_state cp)))"

section \<open>Notions the statements below use\<close>

text \<open>
  An attempt that the fetchers answer with the short sleep: a reply whose status is not
  200, 429 or 403 and whose text has no captcha marker, a transport error or a timeout.
  \<open>retry_effects\<close> are the requests and sleeps of a search whose attempts, from a given
  one on, all end like this.
\<close>

definition soft_failure :: "response \<Rightarrow> bool" where
  "soft_failure r =
     (case r of
        Reply status text record_count \<Rightarrow>
          status \<noteq> 200 \<and> status \<noteq> 429 \<and> status \<noteq> 403 \<and> \<not> has_captcha text
      | TransportError \<Rightarrow> True
      | Timeout \<Rightarrow> True
      | OtherFailure \<Rightarrow> False)"

definition retry_effects :: "nat \<Rightarrow> nat \<Rightarrow> effect list" where
  "retry_effects max_retries attempt =
     concat (map (\<lambda>a. [Get a, Sleep 5]) [attempt..<max_retries - 1]) @ [Get (max_retries - 1)]"

text \<open>
  A reply 429, and the requests and sleeps of the attempts from one attempt up to, not
  including, another when each of them is answered by a reply 429: the sleep after
  attempt \<open>a\<close> is \<open>2 ^ a\<close> times the base.
\<close>

definition rate_limited :: "response \<Rightarrow> bool" where
  "rate_limited r = (case r of Reply status text record_count \<Rightarrow> status = 429 | _ \<Rightarrow> False)"

definition backoff_effects :: "nat \<Rightarrow> nat \<Rightarrow> nat \<Rightarrow> effect list" where
  "backoff_effects base attempt bound =
     concat (map (\<lambda>a. [Get a, Sleep (2 ^ a * base)]) [attempt..<bound])"

text \<open>
  The slices \<^verbatim>\<open>valid_rows[i:i + batch_size]\<close> of the loop of \<open>process_licenses_async\<close>;
  the tasks \<open>process_batch\<close> creates for a batch; the tasks whose search counts the row
  as found; and the rows a batch contributes to the result buffer: the found ones among
  its tasks, in the order in which the tasks end.
\<close>

function batches :: "nat \<Rightarrow> 'a list \<Rightarrow> 'a list list" where
  "batches batch_size valid_rows =
     (if valid_rows = [] \<or> batch_size = 0 then []
      else take batch_size valid_rows # batches batch_size (drop batch_size valid_rows))"
  by pat_completeness auto
termination
  by (relation "measure (\<lambda>(batch_size, valid_rows). length valid_rows)") auto

declare batches.simps [simp del]

definition kept :: "(nat \<Rightarrow> nat \<Rightarrow> response) \<Rightarrow> nat \<Rightarrow> nat \<times> pydict \<Rightarrow> bool" where
  "kept web max_retries task \<longleftrightarrow> fst (async_search max_retries (web (fst task))) = Counted True"

definition batch_tasks :: "(nat \<times> pydict) list \<Rightarrow> (nat \<times> pydict) list" where
  "batch_tasks batch_data = filter (\<lambda>(idx, row). names_ok row) batch_data"

definition batch_output ::
    "(nat \<Rightarrow> nat \<Rightarrow> response) \<Rightarrow> nat \<Rightarrow> nat list \<Rightarrow> (nat \<times> pydict) list \<Rightarrow> (nat \<times> pydict) list" where
  "batch_output web max_concurrent choices batch_data =
     filter (kept web 3) (completion_order max_concurrent choices (batch_tasks batch_data))"

text \<open>
  \<open>steady d st chars\<close>: reading \<open>chars\<close> from the state \<open>st\<close>, the number of open
  brackets is \<open>d\<close> before and after every character.
\<close>

primrec steady :: "int \<Rightarrow> scan_state \<Rightarrow> pystr \<Rightarrow> bool" where
  "steady d st [] = (snd (snd st) = d)"
| "steady d st (c # cs) = (snd (snd st) = d \<and> steady d (json_step st c) cs)"

section \<open>Inputs of the closed examples\<close>

text \<open>
  Two eligible rows, an input file name, environments that answer every attempt alike
  (every search finds a record; the searches of row 0 get a bare status, those of the
  other rows find a record; every attempt is answered with status 500 and a page that
  shows a captcha), and two schedules: one in which the first task in flight
  always ends first, one in which the second does whenever there is one.
\<close>

definition row_ann :: pydict where
  "row_ann = [(ustr ''First Name'', ustr ''Ann''), (ustr ''Last Name'', ustr ''Lee''),
              (ustr ''Expiration Date'', ustr ''06/30/2025'')]"

definition row_bob :: pydict where
  "row_bob = [(ustr ''First Name'', ustr ''Bob''), (ustr ''Last Name'', ustr ''Smith''),
              (ustr ''Expiration Date'', ustr ''01/15/2024'')]"

definition licenses_csv :: pystr where
  "licenses_csv = ustr ''./test-licenses.csv''"

definition all_found :: "nat \<Rightarrow> nat \<Rightarrow> response" where
  "all_found idx attempt = Reply 200 [] (Some 1)"

definition first_row_status :: "nat \<Rightarrow> nat \<Rightarrow> nat \<Rightarrow> response" where
  "first_row_status status idx attempt =
     (if idx = 0 then Reply status [] None else Reply 200 [] (Some 1))"

definition captcha_500 :: "nat \<Rightarrow> response" where
  "captcha_500 attempt = Reply 500 (ustr ''<html>Please solve this CAPTCHA</html>'') None"

definition in_order :: "nat \<Rightarrow> nat list" where
  "in_order n = []"

definition second_first :: "nat \<Rightarrow> nat list" where
  "second_first n = [1]"

text \<open>A time stamp as \<^verbatim>\<open>datetime.now().isoformat()\<close> gives it.\<close>

definition example_timestamp :: pystr where
  "example_timestamp = ustr ''2025-01-01T00:00:00''"

section \<open>Properties of the normalizer\<close>

lemma re_split_pieces: "\<forall>p \<in> set (re_split sep s). \<forall>c \<in> set p. \<not> sep c"
proof (induction sep s rule: re_split.induct)
  case (1 sep)
  show ?case by simp
next
  case (2 sep c cs)
  show ?case
  proof (cases "sep c")
    case True
    with "2.IH"(1) show ?thesis by simp
  next
    case False
    with "2.IH"(2) show ?thesis by (auto split: list.splits)
  qed
qed

lemma re_split_no_sep: "p \<in> set (re_split sep s) \<Longrightarrow> c \<in> set p \<Longrightarrow> \<not> sep c"
  using re_split_pieces by blast

lemma py_join_chars:
  "c \<in> set (py_join sep ps) \<Longrightarrow> c \<in> set sep \<or> (\<exists>p \<in> set ps. c \<in> set p)"
  by (induction sep ps rule: py_join.induct) auto

lemma normalize_name_separators:
  "c \<in> set (normalize_name nfkd name) \<Longrightarrow> name_sep c \<Longrightarrow> c = 32"
proof -
  assume c: "c \<in> set (normalize_name nfkd name)" and s: "name_sep c"
  show "c = 32"
  proof (cases "name = []")
    case True
    with c show ?thesis by (simp add: normalize_name_def)
  next
    case False
    define parts where
      "parts = re_split name_sep (py_strip (py_lower_ascii (encode_ascii_ignore (nfkd name))))"
    from False c have "c \<in> set (py_join [32]
        (filter (\<lambda>p. p \<noteq> [] \<and> p \<notin> set (suffixes @ prefixes)) parts))"
      by (simp add: normalize_name_def Let_def parts_def)
    then have "c = 32 \<or> (\<exists>p \<in> set parts. c \<in> set p)"
      by (auto dest: py_join_chars)
    with s show ?thesis
      by (auto simp: parts_def dest: re_split_no_sep)
  qed
qed

lemma normalize_name_no_hyphen: "45 \<notin> set (normalize_name nfkd name)"
proof
  assume "45 \<in> set (normalize_name nfkd name)"
  moreover have "name_sep 45" by (simp add: name_sep_def)
  ultimately have "(45::nat) = 32" by (rule normalize_name_separators)
  then show False by simp
qed

lemma get_name_variations_single:
  "get_name_variations nfkd first_name last_name =
     [(normalize_name nfkd first_name, normalize_name nfkd last_name)]"
  by (simp add: get_name_variations_def Let_def normalize_name_no_hyphen)

text \<open>
  C10. \<open>normalize_name\<close> never returns a hyphen (the hyphen is one of the characters its
  \<^verbatim>\<open>re.split\<close> cuts at, and the pieces are joined by single spaces), so for every pair
  of names \<open>get_name_variations\<close> returns exactly the one-element list of the normalized
  pair: none of its three hyphen branches contributes an element.
\<close>

theorem normalize_name_hyphen_free_variations_single:
  "45 \<notin> set (normalize_name nfkd name) \<and>
   get_name_variations nfkd first_name last_name =
     [(normalize_name nfkd first_name, normalize_name nfkd last_name)]"
  using normalize_name_no_hyphen get_name_variations_single by simp

section \<open>Properties of the matcher\<close>

lemma ustr_eq_iff: "ustr a = ustr b \<longleftrightarrow> a = b"
  by (simp add: ustr_def inj_map_eq_map inj_on_def)

lemma ustr_Nil_iff: "ustr a = [] \<longleftrightarrow> a = []"
  by (simp add: ustr_def)

lemma first_match_find: "first_match lvs ovs = find (\<lambda>v. v \<in> set ovs) lvs"
  by (induction lvs ovs rule: first_match.induct) (auto simp: list_ex_iff)

lemmas normalize_eval = ustr_def nfkd_ascii_def normalize_name_def encode_ascii_ignore_def
  py_lower_ascii_def py_strip_def name_sep_def py_isspace_def suffixes_def prefixes_def

lemma normalize_Anne_Marie: "normalize_name nfkd_ascii (ustr ''Anne-Marie'') = ustr ''anne marie''"
  by (simp add: normalize_eval)

lemma normalize_Lee: "normalize_name nfkd_ascii (ustr ''Lee'') = ustr ''lee''"
  by (simp add: normalize_eval)

lemma normalize_Marie: "normalize_name nfkd_ascii (ustr ''Marie'') = ustr ''marie''"
  by (simp add: normalize_eval)

lemma normalize_Bob: "normalize_name nfkd_ascii (ustr ''Bob'') = ustr ''bob''"
  by (simp add: normalize_eval)

lemma normalize_Robert: "normalize_name nfkd_ascii (ustr ''Robert'') = ustr ''robert''"
  by (simp add: normalize_eval)

lemma normalize_Smith: "normalize_name nfkd_ascii (ustr ''Smith'') = ustr ''smith''"
  by (simp add: normalize_eval)

lemma record_Marie_Lee:
  fixes r :: pydict
  defines "r \<equiv> [(ustr ''firstName'', ustr ''Marie''), (ustr ''lastName'', ustr ''Lee'')]"
  shows "dict_get r ''firstName'' [] = ustr ''Marie''"
    and "dict_get r ''lastName'' [] = ustr ''Lee''"
    and "dict_get r ''middleName'' [] = []"
    and "dict_get r ''nickName'' [] = []"
    and "dict_get r ''maidenName'' [] = []"
  by (simp_all add: r_def dict_get_def ustr_eq_iff)

lemma record_Robert_Smith_Bob:
  fixes r :: pydict
  defines "r \<equiv> [(ustr ''firstName'', ustr ''Robert''), (ustr ''lastName'', ustr ''Smith''),
                 (ustr ''nickName'', ustr ''Bob'')]"
  shows "dict_get r ''firstName'' [] = ustr ''Robert''"
    and "dict_get r ''lastName'' [] = ustr ''Smith''"
    and "dict_get r ''middleName'' [] = []"
    and "dict_get r ''nickName'' [] = ustr ''Bob''"
    and "dict_get r ''maidenName'' [] = []"
  by (simp_all add: r_def dict_get_def ustr_eq_iff)

text \<open>
  C2 (the code does not do what the claim says). The hyphen of a name is consumed by
  \<open>normalize_name\<close>, so \<open>get_name_variations\<close> never reaches its hyphen branches:
  the candidate \<^verbatim>\<open>("Anne-Marie", "Lee")\<close> has the single variation
  \<^verbatim>\<open>("anne marie", "lee")\<close>, no segment \<^verbatim>\<open>("marie", "lee")\<close>, and
  \<open>check_name_match\<close> against the record \<^verbatim>\<open>{firstName: "Marie", lastName: "Lee"}\<close>
  answers no match.
\<close>

theorem anne_marie_lee_not_matched:
  "get_name_variations nfkd_ascii (ustr ''Anne-Marie'') (ustr ''Lee'')
     = [(ustr ''anne marie'', ustr ''lee'')] \<and>
   check_name_match nfkd_ascii (ustr ''Anne-Marie'') (ustr ''Lee'')
     [(ustr ''firstName'', ustr ''Marie''), (ustr ''lastName'', ustr ''Lee'')]
     = (False, ustr ''No match found. License: Anne-Marie Lee, Obit: Marie Lee'')"
proof
  show "get_name_variations nfkd_ascii (ustr ''Anne-Marie'') (ustr ''Lee'')
     = [(ustr ''anne marie'', ustr ''lee'')]"
    by (simp add: get_name_variations_single normalize_Anne_Marie normalize_Lee)
  show "check_name_match nfkd_ascii (ustr ''Anne-Marie'') (ustr ''Lee'')
     [(ustr ''firstName'', ustr ''Marie''), (ustr ''lastName'', ustr ''Lee'')]
     = (False, ustr ''No match found. License: Anne-Marie Lee, Obit: Marie Lee'')"
    by (simp add: check_name_match_def Let_def get_name_variations_single record_Marie_Lee
          normalize_Anne_Marie normalize_Lee normalize_Marie ustr_eq_iff)
       (simp add: ustr_def)
qed

lemma check_name_match_no_name_object:
  "check_name_match nfkd license_first license_last [] = (False, ustr ''No name object'')"
  by (simp add: check_name_match_def)

text \<open>
  C6. For a name record that is not the empty object (a record of the remote service
  carries at least \<^verbatim>\<open>firstName\<close> and \<^verbatim>\<open>lastName\<close>; the empty object is what
  the caller passes for an entry without a name, and is answered before any strategy),
  \<open>check_name_match\<close> returns at the first strategy, in the order exact, middle name as
  first name, nickname as first name, maiden name as last name, that is present and
  succeeds, with the reason that names this strategy; when none succeeds it returns
  \<open>False\<close> with a reason that carries the two names of the candidate and the two names
  of the record.
\<close>

theorem check_name_match_priority:
  assumes "obit \<noteq> []"
  shows "check_name_match nfkd cand_first cand_last obit =
     (case find (strategy_succeeds nfkd cand_first cand_last obit) strategy_order of
        Some s \<Rightarrow> (True, match_reason (strategy_label s)
                     (normalize_name nfkd cand_first, normalize_name nfkd cand_last))
      | None \<Rightarrow> (False, ustr ''No match found. License: '' @ cand_first @ [32] @ cand_last
                   @ ustr '', Obit: '' @ dict_get obit ''firstName'' [] @ [32]
                   @ dict_get obit ''lastName'' []))"
  using assms
  by (simp add: check_name_match_def Let_def first_match_find get_name_variations_single
        strategy_succeeds_def strategy_order_def)

theorem check_name_match_priority_witness:
  "[(ustr ''firstName'', ustr ''Robert''), (ustr ''lastName'', ustr ''Smith''),
    (ustr ''nickName'', ustr ''Bob'')] \<noteq> ([] :: pydict) \<and>
   find (strategy_succeeds nfkd_ascii (ustr ''Bob'') (ustr ''Smith'')
      [(ustr ''firstName'', ustr ''Robert''), (ustr ''lastName'', ustr ''Smith''),
       (ustr ''nickName'', ustr ''Bob'')]) strategy_order = Some NicknameAsFirst \<and>
   check_name_match nfkd_ascii (ustr ''Bob'') (ustr ''Smith'')
      [(ustr ''firstName'', ustr ''Robert''), (ustr ''lastName'', ustr ''Smith''),
       (ustr ''nickName'', ustr ''Bob'')]
     = (True, ustr ''Nickname match: bob smith'')"
proof -
  let ?r = "[(ustr ''firstName'', ustr ''Robert''), (ustr ''lastName'', ustr ''Smith''),
             (ustr ''nickName'', ustr ''Bob'')] :: pydict"
  have ne: "?r \<noteq> []" by simp
  have f: "find (strategy_succeeds nfkd_ascii (ustr ''Bob'') (ustr ''Smith'') ?r) strategy_order
             = Some NicknameAsFirst"
    by (simp add: strategy_order_def strategy_succeeds_def get_name_variations_single
          record_Robert_Smith_Bob normalize_Bob normalize_Robert normalize_Smith ustr_eq_iff
          ustr_Nil_iff)
  have r: "match_reason (strategy_label NicknameAsFirst) (ustr ''bob'', ustr ''smith'')
          = ustr ''Nickname match: bob smith''"
    by (simp add: match_reason_def ustr_def)
  have "check_name_match nfkd_ascii (ustr ''Bob'') (ustr ''Smith'') ?r
          = (True, match_reason (strategy_label NicknameAsFirst)
                     (normalize_name nfkd_ascii (ustr ''Bob''),
                      normalize_name nfkd_ascii (ustr ''Smith'')))"
    by (simp only: check_name_match_priority [OF ne] f option.case)
  then have "check_name_match nfkd_ascii (ustr ''Bob'') (ustr ''Smith'') ?r
          = (True, ustr ''Nickname match: bob smith'')"
    by (simp only: normalize_Bob normalize_Smith r)
  with ne f show ?thesis by (intro conjI)
qed


section \<open>Properties of the row filter\<close>

lemma py_int4:
  assumes "is_digit a" "is_digit b" "is_digit c" "is_digit d"
  shows "py_int decimal [a, b, c, d] = Some (number4 a b c d)"
  using assms
  by (auto simp: py_int_def is_digit_def number4_def digit_value_def int_space_def py_isspace_def)

lemma py_int2:
  assumes "is_digit a" "is_digit b"
  shows "py_int decimal [a, b] = Some (number2 a b)"
  using assms
  by (auto simp: py_int_def is_digit_def number2_def digit_value_def int_space_def py_isspace_def)

lemma split_slash:
  assumes "list_all is_digit [a, b, c, d, e, f, g, h]"
  shows "py_split 47 [a, b, 47, c, d, 47, e, f, g, h] = [[a, b], [c, d], [e, f, g, h]]"
    and "py_split 47 [a, b, c, d, 47, e, f, 47, g, h] = [[a, b, c, d], [e, f], [g, h]]"
  using assms by (auto simp: is_digit_def)

lemma split_dash:
  assumes "list_all is_digit [a, b, c, d, e, f, g, h]"
  shows "py_split 45 [a, b, 45, c, d, 45, e, f, g, h] = [[a, b], [c, d], [e, f, g, h]]"
    and "py_split 45 [a, b, c, d, 45, e, f, 45, g, h] = [[a, b, c, d], [e, f], [g, h]]"
    and "47 \<notin> set [a, b, 45, c, d, 45, e, f, g, h]"
    and "47 \<notin> set [a, b, c, d, 45, e, f, 45, g, h]"
  using assms by (auto simp: is_digit_def)

lemma number2_small: "is_digit a \<Longrightarrow> is_digit b \<Longrightarrow> number2 a b \<le> 99"
  by (auto simp: is_digit_def number2_def)

lemma expiration_mdy_slash:
  assumes "list_all is_digit [m1, m2, d1, d2, y1, y2, y3, y4]"
    and "py_strip (dict_get row ''Expiration Date'' []) = [m1, m2, 47, d1, d2, 47, y1, y2, y3, y4]"
  shows "expiration_ok decimal row \<longleftrightarrow> 2023 < number4 y1 y2 y3 y4"
  using assms(1) split_slash(1) [OF assms(1)]
  by (simp add: expiration_ok_def expiration_year_def assms(2) py_int4 not_le)

lemma expiration_mdy_dash:
  assumes "list_all is_digit [m1, m2, d1, d2, y1, y2, y3, y4]"
    and "py_strip (dict_get row ''Expiration Date'' []) = [m1, m2, 45, d1, d2, 45, y1, y2, y3, y4]"
  shows "expiration_ok decimal row \<longleftrightarrow> 2023 < number4 y1 y2 y3 y4"
  using assms(1) split_dash(1,3) [OF assms(1)]
  by (simp add: expiration_ok_def expiration_year_def assms(2) py_int4 not_le)

lemma expiration_ymd_dash:
  assumes "list_all is_digit [y1, y2, y3, y4, m1, m2, d1, d2]"
    and "py_strip (dict_get row ''Expiration Date'' []) = [y1, y2, y3, y4, 45, m1, m2, 45, d1, d2]"
  shows "\<not> expiration_ok decimal row"
  using assms(1) split_dash(2,4) [OF assms(1)] number2_small [of d1 d2]
  by (simp add: expiration_ok_def expiration_year_def assms(2) py_int2)

text \<open>
  C5, as the claim states it, fails: the date \<^verbatim>\<open>2025-06-30\<close> is in the format
  YYYY-MM-DD and its year 2025 is above the cutoff, yet the row does not pass, because
  the number compared with 2023 is the trailing component 30.
\<close>

theorem expiration_iso_date_rejected:
  "\<not> (expiration_ok no_decimal [(ustr ''Expiration Date'', ustr ''2025-06-30'')]
     \<longleftrightarrow> 2023 < number4 50 48 50 53)"
  by (simp add: expiration_ok_def expiration_year_def dict_get_def ustr_def py_strip_def
      py_isspace_def py_int_def int_space_def digit_value_def number4_def)

text \<open>
  C5, amended. The year is read from the trailing component for both separators. A row
  whose stripped Expiration Date is MM/DD/YYYY, or MM-DD-YYYY, passes the date filter
  exactly when YYYY is greater than 2023; a row whose date is YYYY-MM-DD never passes,
  whatever its year.
\<close>

theorem expiration_filter_trailing_year:
  "list_all is_digit [a, b, c, d, e, f, g, h] \<longrightarrow>
     (py_strip (dict_get row ''Expiration Date'' []) = [a, b, 47, c, d, 47, e, f, g, h] \<longrightarrow>
        (expiration_ok decimal row \<longleftrightarrow> 2023 < number4 e f g h)) \<and>
     (py_strip (dict_get row ''Expiration Date'' []) = [a, b, 45, c, d, 45, e, f, g, h] \<longrightarrow>
        (expiration_ok decimal row \<longleftrightarrow> 2023 < number4 e f g h)) \<and>
     (py_strip (dict_get row ''Expiration Date'' []) = [a, b, c, d, 45, e, f, 45, g, h] \<longrightarrow>
        \<not> expiration_ok decimal row)"
  using expiration_mdy_slash [of a b c d e f g h row decimal]
    expiration_mdy_dash [of a b c d e f g h row decimal]
    expiration_ymd_dash [of a b c d e f g h row decimal]
  by blast

theorem expiration_filter_trailing_year_witness:
  "list_all is_digit [48, 54, 51, 48, 50, 48, 50, 53] \<and>
   py_strip (dict_get [(ustr ''Expiration Date'', ustr '' 06/30/2025'')] ''Expiration Date'' [])
     = [48, 54, 47, 51, 48, 47, 50, 48, 50, 53] \<and>
   2023 < number4 50 48 50 53 \<and>
   expiration_ok no_decimal [(ustr ''Expiration Date'', ustr '' 06/30/2025'')]"
proof -
  have d: "list_all is_digit [48, 54, 51, 48, 50, 48, 50, 53]"
    by (simp add: is_digit_def)
  have s: "py_strip (dict_get [(ustr ''Expiration Date'', ustr '' 06/30/2025'')]
             ''Expiration Date'' []) = [48, 54, 47, 51, 48, 47, 50, 48, 50, 53]"
    by (simp add: dict_get_def ustr_def py_strip_def py_isspace_def)
  have y: "2023 < number4 50 48 50 53"
    by (simp add: number4_def)
  from expiration_filter_trailing_year
         [of 48 54 51 48 50 48 50 53 "[(ustr ''Expiration Date'', ustr '' 06/30/2025'')]"
            no_decimal] d s y
  have "expiration_ok no_decimal [(ustr ''Expiration Date'', ustr '' 06/30/2025'')]"
    by blast
  with d s y show ?thesis by blast
qed


section \<open>Properties of the fetchers\<close>

lemma search_attempts_soft_step:
  assumes "attempt < max_retries" "soft_failure (http attempt)"
  shows "search_attempts max_retries http attempt =
     (if attempt < max_retries - 1
      then after [Get attempt, Sleep 5] (search_attempts max_retries http (Suc attempt))
      else (Returned False, [Get attempt]))"
  using assms
  by (subst search_attempts.simps) (auto simp: soft_failure_def split: response.splits)

lemma async_attempts_soft_step:
  assumes "attempt < max_retries" "soft_failure (http attempt)"
  shows "async_attempts max_retries http attempt =
     (if attempt < max_retries - 1
      then after [Get attempt, Sleep 5] (async_attempts max_retries http (Suc attempt))
      else (NotCounted, [Get attempt]))"
  using assms
  by (subst async_attempts.simps) (auto simp: soft_failure_def split: response.splits)

lemma search_attempts_all_soft:
  assumes "\<forall>a < max_retries. soft_failure (http a)" "attempt < max_retries"
  shows "search_attempts max_retries http attempt = (Returned False, retry_effects max_retries attempt)"
  using assms(2)
proof (induction "max_retries - attempt" arbitrary: attempt)
  case 0
  then show ?case by simp
next
  case (Suc n)
  from Suc.prems assms(1) have soft: "soft_failure (http attempt)" by simp
  show ?case
  proof (cases "attempt < max_retries - 1")
    case True
    then have "Suc attempt < max_retries" by simp
    moreover from Suc.hyps(2) have "n = max_retries - Suc attempt" by simp
    ultimately have "search_attempts max_retries http (Suc attempt)
        = (Returned False, retry_effects max_retries (Suc attempt))"
      using Suc.hyps(1) by blast
    moreover from True have "[attempt..<max_retries - 1] = attempt # [Suc attempt..<max_retries - 1]"
      by (simp add: upt_conv_Cons)
    ultimately show ?thesis
      using True by (simp add: search_attempts_soft_step [of attempt max_retries http, OF Suc.prems soft] after_def retry_effects_def)
  next
    case False
    with Suc.prems have "attempt = max_retries - 1" by simp
    then have "retry_effects max_retries attempt = [Get attempt]"
      by (simp add: retry_effects_def)
    moreover from False
    have "search_attempts max_retries http attempt = (Returned False, [Get attempt])"
      by (simp add: search_attempts_soft_step [of attempt max_retries http, OF Suc.prems soft])
    ultimately show ?thesis by simp
  qed
qed

lemma async_attempts_all_soft:
  assumes "\<forall>a < max_retries. soft_failure (http a)" "attempt < max_retries"
  shows "async_attempts max_retries http attempt = (NotCounted, retry_effects max_retries attempt)"
  using assms(2)
proof (induction "max_retries - attempt" arbitrary: attempt)
  case 0
  then show ?case by simp
next
  case (Suc n)
  from Suc.prems assms(1) have soft: "soft_failure (http attempt)" by simp
  note step = async_attempts_soft_step [of attempt max_retries http, OF Suc.prems soft]
  show ?case
  proof (cases "attempt < max_retries - 1")
    case True
    then have "Suc attempt < max_retries" by simp
    moreover from Suc.hyps(2) have "n = max_retries - Suc attempt" by simp
    ultimately have "async_attempts max_retries http (Suc attempt)
        = (NotCounted, retry_effects max_retries (Suc attempt))"
      using Suc.hyps(1) by blast
    moreover from True have "[attempt..<max_retries - 1] = attempt # [Suc attempt..<max_retries - 1]"
      by (simp add: upt_conv_Cons)
    ultimately show ?thesis
      using True by (simp add: step after_def retry_effects_def)
  next
    case False
    with Suc.prems have "attempt = max_retries - 1" by simp
    then have "retry_effects max_retries attempt = [Get attempt]"
      by (simp add: retry_effects_def)
    moreover from False
    have "async_attempts max_retries http attempt = (NotCounted, [Get attempt])"
      by (simp add: step)
    ultimately show ?thesis by simp
  qed
qed

lemma has_captcha_empty: "\<not> has_captcha []"
  by (simp add: has_captcha_def py_lower_ascii_def ustr_def)


section \<open>Properties of the schedulers\<close>

lemma complete_task_frame:
  "written (complete_task web r st t) = written st"
  "searched (complete_task web r st t) = searched st"
  "progress_file (complete_task web r st t) = progress_file st"
  by (simp_all add: complete_task_def split: task_end.splits)

lemma complete_task_results:
  "results (complete_task web r st t) = results st @ (if kept web r t then [t] else [])"
  by (simp add: complete_task_def kept_def split: task_end.splits)

lemma foldl_complete_task_frame:
  "written (foldl (complete_task web r) st ts) = written st"
  "searched (foldl (complete_task web r) st ts) = searched st"
  "progress_file (foldl (complete_task web r) st ts) = progress_file st"
  by (induction ts arbitrary: st) (simp_all add: complete_task_frame)

lemma foldl_complete_task_results:
  "results (foldl (complete_task web r) st ts) = results st @ filter (kept web r) ts"
  by (induction ts arbitrary: st) (simp_all add: complete_task_results)

lemma completion_order_mset:
  "0 < max_concurrent \<Longrightarrow> mset (completion_order max_concurrent choices pending) = mset pending"
proof (induction max_concurrent choices pending rule: completion_order.induct)
  case (1 max_concurrent choices pending)
  show ?case
  proof (cases "pending = []")
    case True
    then show ?thesis by (simp add: completion_order.simps [of _ _ "[]"])
  next
    case False
    define in_flight where "in_flight = min max_concurrent (length pending)"
    define k where "k = (case choices of [] \<Rightarrow> 0 | ch # _ \<Rightarrow> ch) mod in_flight"
    from False "1.prems" have pos: "in_flight \<noteq> 0" by (simp add: in_flight_def)
    then have "k < in_flight" by (simp add: k_def)
    then have kl: "k < length pending" by (simp add: in_flight_def)
    have IH: "mset (completion_order max_concurrent (tl choices)
                 (take k pending @ drop (Suc k) pending))
              = mset (take k pending @ drop (Suc k) pending)"
      using "1.IH" [OF in_flight_def pos k_def] "1.prems" by simp
    have "mset pending = mset (take k pending @ pending ! k # drop (Suc k) pending)"
      using kl by (simp add: id_take_nth_drop [symmetric])
    then have "mset pending = add_mset (pending ! k) (mset (take k pending @ drop (Suc k) pending))"
      by simp
    with IH pos show ?thesis
      by (simp add: completion_order.simps [of _ _ pending] Let_def in_flight_def [symmetric]
            k_def [symmetric])
  qed
qed

lemma process_batch_Some:
  assumes "0 < max_concurrent"
  shows "\<exists>st'. process_batch web max_concurrent 3 choices batch_data st = Some st' \<and>
           results st' = results st @ batch_output web max_concurrent choices batch_data \<and>
           written st' = written st \<and>
           searched st' = searched st @ map fst (batch_tasks batch_data)"
  using assms
  by (simp add: process_batch_def Let_def batch_output_def batch_tasks_def
        foldl_complete_task_frame foldl_complete_task_results)

lemma process_batches_written:
  assumes "0 < max_concurrent" "0 < batch_size" "results st = []"
  shows "\<exists>st'. process_batches web path batch_size max_concurrent sched n valid_rows st = Some st' \<and>
           results st' = [] \<and>
           written st' = written st @
             concat (map (\<lambda>(k, batch). batch_output web max_concurrent (sched k) batch)
                       (enumerate n (batches batch_size valid_rows))) \<and>
           searched st' = searched st @
             concat (map (\<lambda>batch. map fst (batch_tasks batch)) (batches batch_size valid_rows))"
  using assms
proof (induction web path batch_size max_concurrent sched n valid_rows st
        rule: process_batches.induct)
  case (1 web path batch_size max_concurrent sched n valid_rows st)
  show ?case
  proof (cases "valid_rows = []")
    case True
    with "1.prems" show ?thesis
      by (simp add: process_batches.simps [of _ _ _ _ _ _ "[]"] batches.simps [of _ "[]"])
  next
    case False
    define batch where "batch = take batch_size valid_rows"
    define last_idx where "last_idx = fst (last batch)"
    from process_batch_Some [OF "1.prems"(1), of web "sched n" batch st]
    obtain st1 where st1: "process_batch web max_concurrent 3 (sched n) batch st = Some st1"
      and r1: "results st1 = results st @ batch_output web max_concurrent (sched n) batch"
      and w1: "written st1 = written st"
      and s1: "searched st1 = searched st @ map fst (batch_tasks batch)"
      by blast
    define st2 where "st2 = st1\<lparr>progress_file :=
         save_progress path (int last_idx) (total_found st1) (total_processed st1) None False
           (progress_file st1)\<rparr>"
    define st3 where "st3 = (if results st2 \<noteq> []
         then st2\<lparr>written := written st2 @ results st2, results := []\<rparr> else st2)"
    have guard: "\<not> (valid_rows = [] \<or> batch_size = 0)"
      using False "1.prems"(2) by simp
    have r3: "results st3 = []" by (simp add: st3_def)
    have w3: "written st3 = written st @ batch_output web max_concurrent (sched n) batch"
      using r1 w1 "1.prems"(3) by (simp add: st3_def st2_def)
    have s3: "searched st3 = searched st @ map fst (batch_tasks batch)"
      using s1 by (simp add: st3_def st2_def)
    from "1.IH" [OF guard batch_def last_idx_def st1 st2_def st3_def "1.prems"(1,2) r3]
    obtain st' where
      run: "process_batches web path batch_size max_concurrent sched (Suc n)
              (drop batch_size valid_rows) st3 = Some st'"
      and r': "results st' = []"
      and w': "written st' = written st3 @
             concat (map (\<lambda>(k, batch). batch_output web max_concurrent (sched k) batch)
                       (enumerate (Suc n) (batches batch_size (drop batch_size valid_rows))))"
      and s': "searched st' = searched st3 @
             concat (map (\<lambda>batch. map fst (batch_tasks batch))
                       (batches batch_size (drop batch_size valid_rows)))"
      by blast
    have b: "batches batch_size valid_rows = batch # batches batch_size (drop batch_size valid_rows)"
      using guard by (simp add: batches.simps [of _ valid_rows] batch_def)
    have "process_batches web path batch_size max_concurrent sched n valid_rows st = Some st'"
      using guard st1 run
      by (simp add: process_batches.simps [of _ _ _ _ _ _ valid_rows] Let_def batch_def [symmetric]
            last_idx_def [symmetric] st2_def [symmetric] st3_def [symmetric])
    with r' w' s' w3 s3 b show ?thesis by simp
  qed
qed

lemma process_rows_bounds:
  "(\<forall>i \<in> set (searched (snd (process_rows decimal web path K idx rows st))).
      i \<in> set (searched st) \<or> (K \<le> int i \<and> idx \<le> i \<and> i < idx + length rows)) \<and>
   (\<forall>(i, row) \<in> set (written (snd (process_rows decimal web path K idx rows st))).
      (i, row) \<in> set (written st) \<or>
      (K \<le> int i \<and> idx \<le> i \<and> i < idx + length rows \<and> row = rows ! (i - idx)))"
proof (induction rows arbitrary: idx st)
  case Nil
  show ?case by auto
next
  case (Cons row rows)
  note IH = Cons.IH [of "Suc idx"]
  show ?case
  proof (cases "int idx < K \<or> \<not> expiration_ok decimal row \<or> \<not> names_ok row")
    case True
    then have "process_rows decimal web path K idx (row # rows) st
                 = process_rows decimal web path K (Suc idx) rows st"
      by auto
    with IH [of st] show ?thesis
      by (auto simp: nth_Cons' split: prod.splits)
  next
    case False
    show ?thesis
    proof (cases "fst (search_legacy_obituary 3 (web idx))")
      case (Raised e)
      with False show ?thesis by auto
    next
      case (Returned found)
      show ?thesis
      proof (cases found)
        case True
        with False Returned show ?thesis by auto
      next
        case nf: False
        define st' where "st' = st\<lparr>searched := searched st @ [idx],
                    total_processed := Suc (total_processed st),
                    progress_file :=
                      (if Suc (total_processed st) mod 10 = 0
                       then save_progress path (int idx) (total_found st)
                              (Suc (total_processed st)) None False (progress_file st)
                       else progress_file st)\<rparr>"
        from False Returned nf
        have "process_rows decimal web path K idx (row # rows) st
                 = process_rows decimal web path K (Suc idx) rows st'"
          by (simp add: st'_def)
        moreover have "searched st' = searched st @ [idx]" "written st' = written st"
          by (simp_all add: st'_def)
        ultimately show ?thesis
          using IH [of st'] False
          by (auto simp: nth_Cons' split: prod.splits)
      qed
    qed
  qed
qed

lemma completion_order_subset: "set (completion_order max_concurrent choices pending) \<subseteq> set pending"
proof (induction max_concurrent choices pending rule: completion_order.induct)
  case (1 max_concurrent choices pending)
  define in_flight where "in_flight = min max_concurrent (length pending)"
  define k where "k = (case choices of [] \<Rightarrow> 0 | ch # _ \<Rightarrow> ch) mod in_flight"
  show ?case
  proof (cases "in_flight = 0")
    case True
    then show ?thesis
      by (simp add: completion_order.simps [of _ _ pending] in_flight_def)
  next
    case False
    then have "k < in_flight" by (simp add: k_def)
    then have kl: "k < length pending" by (simp add: in_flight_def)
    have "set (completion_order max_concurrent (tl choices)
                 (take k pending @ drop (Suc k) pending))
            \<subseteq> set (take k pending @ drop (Suc k) pending)"
      using "1.IH" [OF in_flight_def False k_def] .
    also have "\<dots> \<subseteq> set pending"
      using set_take_subset [of k pending] set_drop_subset [of "Suc k" pending] by auto
    finally have rest: "set (completion_order max_concurrent (tl choices)
                 (take k pending @ drop (Suc k) pending)) \<subseteq> set pending" .
    from kl have "pending ! k \<in> set pending" by simp
    with rest False show ?thesis
      by (simp add: completion_order.simps [of _ _ pending] Let_def in_flight_def [symmetric]
            k_def [symmetric])
  qed
qed

lemma process_batch_from_batch:
  assumes "process_batch web max_concurrent max_retries choices batch_data st = Some st1"
  shows "set (results st1) \<subseteq> set (results st) \<union> set batch_data"
    and "written st1 = written st"
    and "set (searched st1) \<subseteq> set (searched st) \<union> fst ` set batch_data"
  using assms completion_order_subset
          [of max_concurrent choices "filter (\<lambda>(idx, row). names_ok row) batch_data"]
  by (auto simp: process_batch_def Let_def foldl_complete_task_frame foldl_complete_task_results
        split: if_splits)

lemma process_batches_from_valid_rows:
  assumes "process_batches web path batch_size max_concurrent sched n valid_rows st = Some st'"
  shows "set (written st') \<union> set (results st')
           \<subseteq> set (written st) \<union> set (results st) \<union> set valid_rows \<and>
         set (searched st') \<subseteq> set (searched st) \<union> fst ` set valid_rows"
  using assms
proof (induction web path batch_size max_concurrent sched n valid_rows st
        rule: process_batches.induct)
  case (1 web path batch_size max_concurrent sched n valid_rows st)
  show ?case
  proof (cases "valid_rows = [] \<or> batch_size = 0")
    case True
    with "1.prems" show ?thesis
      by (auto simp: process_batches.simps [of _ _ _ _ _ _ valid_rows])
  next
    case False
    define batch where "batch = take batch_size valid_rows"
    define last_idx where "last_idx = fst (last batch)"
    from "1.prems" False obtain st1 where
      st1: "process_batch web max_concurrent 3 (sched n) batch st = Some st1"
      by (auto simp: process_batches.simps [of _ _ _ _ _ _ valid_rows] Let_def batch_def
            split: option.splits)
    define st2 where "st2 = st1\<lparr>progress_file :=
         save_progress path (int last_idx) (total_found st1) (total_processed st1) None False
           (progress_file st1)\<rparr>"
    define st3 where "st3 = (if results st2 \<noteq> []
         then st2\<lparr>written := written st2 @ results st2, results := []\<rparr> else st2)"
    have run: "process_batches web path batch_size max_concurrent sched (Suc n)
              (drop batch_size valid_rows) st3 = Some st'"
      using "1.prems" False st1
      by (simp add: process_batches.simps [of _ _ _ _ _ _ valid_rows] Let_def batch_def [symmetric]
            last_idx_def [symmetric] st2_def [symmetric] st3_def [symmetric])
    note IH = "1.IH" [OF False batch_def last_idx_def st1 st2_def st3_def run]
    have sub: "set batch \<subseteq> set valid_rows" "set (drop batch_size valid_rows) \<subseteq> set valid_rows"
      using set_take_subset [of batch_size valid_rows] set_drop_subset [of batch_size valid_rows]
      by (auto simp: batch_def)
    have a: "set (written st3) \<union> set (results st3)
               \<subseteq> set (written st) \<union> set (results st) \<union> set valid_rows"
      using process_batch_from_batch(1,2) [OF st1] sub(1)
      by (auto simp: st3_def st2_def)
    have b: "set (searched st3) \<subseteq> set (searched st) \<union> fst ` set valid_rows"
      using process_batch_from_batch(3) [OF st1] sub(1)
      by (auto simp: st3_def st2_def)
    from IH a b sub(2) show ?thesis by blast
  qed
qed

lemma valid_rows_indices:
  assumes "(i, row) \<in> set (filter (\<lambda>(idx, row). K \<le> int idx) (filter_valid_rows decimal rows))"
  shows "K \<le> int i \<and> i < length rows \<and> row = rows ! i"
  using assms by (auto simp: filter_valid_rows_def in_set_enumerate_eq)

lemma process_licenses_async_unfold:
  "process_licenses_async decimal web path rows batch_size max_concurrent sched cp =
     (let valid_rows = filter (\<lambda>(idx, row). load_progress cp \<le> int idx)
                         (filter_valid_rows decimal rows)
      in if valid_rows = [] then Some (Returned (initial_state cp))
         else if batch_size = 0 then Some (Raised Unexpected)
         else map_option Returned
                (process_batches web path batch_size max_concurrent sched 0 valid_rows
                   (initial_state cp)))"
  by (simp add: process_licenses_async_def Let_def)

lemma process_licenses_async_indices:
  assumes "process_licenses_async decimal web path rows batch_size max_concurrent sched cp
             = Some (Returned st)"
  shows "(\<forall>i \<in> set (searched st). load_progress cp \<le> int i \<and> i < length rows) \<and>
         (\<forall>(i, row) \<in> set (written st).
            load_progress cp \<le> int i \<and> i < length rows \<and> row = rows ! i)"
proof -
  define valid_rows where "valid_rows = filter (\<lambda>(idx, row). load_progress cp \<le> int idx)
                         (filter_valid_rows decimal rows)"
  note run = assms [unfolded process_licenses_async_unfold Let_def, folded valid_rows_def]
  have sub: "set (written st) \<subseteq> set valid_rows \<and> set (searched st) \<subseteq> fst ` set valid_rows"
  proof (cases "valid_rows = []")
    case True
    with run have "st = initial_state cp" by simp
    then show ?thesis by (simp add: initial_state_def)
  next
    case False
    with run have "batch_size \<noteq> 0" by (cases "batch_size = 0") simp_all
    with run False
    have "process_batches web path batch_size max_concurrent sched 0 valid_rows
                   (initial_state cp) = Some st"
      by auto
    from process_batches_from_valid_rows [OF this]
    show ?thesis by (simp add: initial_state_def)
  qed
  have valid: "load_progress cp \<le> int i \<and> i < length rows \<and> row = rows ! i"
    if "(i, row) \<in> set valid_rows" for i row
    using that unfolding valid_rows_def by (rule valid_rows_indices)
  have "load_progress cp \<le> int i \<and> i < length rows" if "i \<in> set (searched st)" for i
  proof -
    from that sub obtain row where "(i, row) \<in> set valid_rows" by force
    from valid [OF this] show ?thesis by blast
  qed
  moreover have "load_progress cp \<le> int i \<and> i < length rows \<and> row = rows ! i"
    if "(i, row) \<in> set (written st)" for i row
  proof -
    from that sub have "(i, row) \<in> set valid_rows" by blast
    from valid [OF this] show ?thesis .
  qed
  ultimately show ?thesis by blast
qed

lemma process_licenses_async_returns:
  assumes "0 < max_concurrent" "0 < batch_size"
  shows "\<exists>st. process_licenses_async decimal web path rows batch_size max_concurrent sched cp
             = Some (Returned st)"
  using assms process_batches_written [OF assms, of "initial_state cp" web path sched 0]
  by (auto simp: process_licenses_async_def Let_def initial_state_def)

lemma process_licenses_indices:
  "(\<forall>i \<in> set (searched (snd (process_licenses decimal web path rows cp))).
      load_progress cp \<le> int i \<and> i < length rows) \<and>
   (\<forall>(i, row) \<in> set (written (snd (process_licenses decimal web path rows cp))).
      load_progress cp \<le> int i \<and> i < length rows \<and> row = rows ! i)"
  using process_rows_bounds [of decimal web path "load_progress cp" 0 rows "initial_state cp"]
  by (auto simp: process_licenses_def Let_def initial_state_def split: prod.splits)

subsection \<open>The text of the progress document and its prefixes\<close>

lemma json_scan_Nil: "json_scan st [] = st"
  by (simp add: json_scan_def)

lemma json_scan_Cons: "json_scan st (c # cs) = json_scan (json_step st c) cs"
  by (simp add: json_scan_def)

lemma json_scan_append: "json_scan st (a @ b) = json_scan (json_scan st a) b"
  by (simp add: json_scan_def)

lemma steady_start: "steady d st chars \<Longrightarrow> snd (snd st) = d"
  by (cases chars) simp_all

lemma steady_append:
  "steady d st (a @ b) \<longleftrightarrow> steady d st a \<and> steady d (json_scan st a) b"
proof (induction a arbitrary: st)
  case Nil
  show ?case using steady_start [of d st b] by (auto simp: json_scan_Nil)
next
  case (Cons c cs)
  then show ?case by (simp add: json_scan_Cons)
qed

lemma steady_take:
  "steady d st chars \<Longrightarrow> snd (snd (json_scan st (take n chars))) = d"
proof (induction chars arbitrary: st n)
  case Nil
  then show ?case by (simp add: json_scan_Nil)
next
  case (Cons c cs)
  then show ?case by (cases n) (simp_all add: json_scan_Nil json_scan_Cons)
qed

text \<open>
  Every piece of the document between its two braces (a separator, a number, a string
  literal, a member, the joined members) is read from outside a string literal to outside
  a string literal and leaves the number of open brackets as it is, at every character:
  the pieces outside string literals hold no bracket and no quote, and a string literal
  holds no quote but escaped ones before its closing quote.
\<close>

lemma plain_run:
  "\<forall>c \<in> set chars. c \<noteq> 34 \<and> c \<noteq> 123 \<and> c \<noteq> 91 \<and> c \<noteq> 125 \<and> c \<noteq> 93 \<Longrightarrow>
   json_scan (False, False, d) chars = (False, False, d) \<and> steady d (False, False, d) chars"
  by (induction chars) (simp_all add: json_scan_Nil json_scan_Cons)

lemma hex_digit_plain: "d < 16 \<Longrightarrow> hex_digit d \<noteq> 34 \<and> hex_digit d \<noteq> 92"
  by (simp add: hex_digit_def)

lemma hex4_run:
  "json_scan (True, False, d) (hex4 n) = (True, False, d) \<and> steady d (True, False, d) (hex4 n)"
proof -
  have "hex_digit (k mod 16) \<noteq> 34 \<and> hex_digit (k mod 16) \<noteq> 92" for k
    by (rule hex_digit_plain) simp
  then show ?thesis
    by (simp add: hex4_def json_scan_Nil json_scan_Cons)
qed

lemma escape_run:
  "json_scan (True, False, d) (json_escape c) = (True, False, d) \<and>
   steady d (True, False, d) (json_escape c)"
  using hex4_run
  by (simp add: json_escape_def json_scan_Nil json_scan_Cons json_scan_append steady_append)

lemma escaped_run:
  "json_scan (True, False, d) (concat (map json_escape s)) = (True, False, d) \<and>
   steady d (True, False, d) (concat (map json_escape s))"
  by (induction s) (simp_all add: json_scan_Nil json_scan_append steady_append escape_run)

lemma string_run:
  "json_scan (False, False, d) (json_string s) = (False, False, d) \<and>
   steady d (False, False, d) (json_string s)"
  by (simp add: json_string_def json_scan_Nil json_scan_Cons json_scan_append steady_append
      escaped_run)

lemma py_repr_nat_digits: "c \<in> set (py_repr_nat n) \<Longrightarrow> 48 \<le> c \<and> c \<le> 57"
proof (induction n rule: py_repr_nat.induct)
  case (1 n)
  show ?case
  proof (cases "n < 10")
    case True
    with "1.prems" show ?thesis by (simp add: py_repr_nat.simps [of n])
  next
    case False
    have "n mod 10 < 10" by simp
    with False "1.prems" "1.IH" show ?thesis
      by (auto simp: py_repr_nat.simps [of n])
  qed
qed

lemma py_repr_int_run:
  "json_scan (False, False, d) (py_repr_int i) = (False, False, d) \<and>
   steady d (False, False, d) (py_repr_int i)"
proof (rule plain_run, rule ballI)
  fix c assume "c \<in> set (py_repr_int i)"
  then have "c = 45 \<or> (48 \<le> c \<and> c \<le> 57)"
    using py_repr_nat_digits by (auto simp: py_repr_int_def split: if_splits)
  then show "c \<noteq> 34 \<and> c \<noteq> 123 \<and> c \<noteq> 91 \<and> c \<noteq> 125 \<and> c \<noteq> 93" by auto
qed

lemma value_run:
  "json_scan (False, False, d) (json_value_text v) = (False, False, d) \<and>
   steady d (False, False, d) (json_value_text v)"
proof (cases v)
  case (JInt i)
  then show ?thesis by (simp add: py_repr_int_run)
next
  case (JStr s)
  then show ?thesis by (simp add: string_run)
next
  case JTrue
  then show ?thesis by (simp add: ustr_def json_scan_Nil json_scan_Cons)
qed

lemma member_run:
  "json_scan (False, False, d) (json_member m) = (False, False, d) \<and>
   steady d (False, False, d) (json_member m)"
  by (simp add: json_member_def json_scan_Nil json_scan_Cons json_scan_append steady_append
      string_run value_run)

lemma join_run:
  "\<forall>p \<in> set ps. json_scan (False, False, d) p = (False, False, d) \<and> steady d (False, False, d) p \<Longrightarrow>
   json_scan (False, False, d) sep = (False, False, d) \<and> steady d (False, False, d) sep \<Longrightarrow>
   json_scan (False, False, d) (py_join sep ps) = (False, False, d) \<and>
   steady d (False, False, d) (py_join sep ps)"
  by (induction sep ps rule: py_join.induct)
     (simp_all add: json_scan_Nil json_scan_append steady_append)

lemma members_run:
  "json_scan (False, False, d) (py_join [44, 10, 32, 32] (map json_member ms)) = (False, False, d) \<and>
   steady d (False, False, d) (py_join [44, 10, 32, 32] (map json_member ms))"
  by (rule join_run) (simp_all add: member_run json_scan_Nil json_scan_Cons)

text \<open>
  So one bracket is open from the opening brace of the document to its closing brace: the
  document is balanced and none of its proper prefixes is.
\<close>

lemma object_inside:
  "ms \<noteq> [] \<Longrightarrow>
   \<exists>inside. json_object ms = 123 # inside @ [125] \<and>
     json_scan (False, False, 1) inside = (False, False, 1) \<and>
     steady 1 (False, False, 1) inside"
proof -
  assume "ms \<noteq> []"
  let ?inside = "[10, 32, 32] @ py_join [44, 10, 32, 32] (map json_member ms) @ [10]"
  have "json_object ms = 123 # ?inside @ [125]"
    using \<open>ms \<noteq> []\<close> by (simp add: json_object_def)
  moreover have "json_scan (False, False, 1) ?inside = (False, False, 1) \<and>
     steady 1 (False, False, 1) ?inside"
    using members_run [of 1 ms]
    by (simp add: json_scan_Nil json_scan_Cons json_scan_append steady_append)
  ultimately show ?thesis by blast
qed

lemma object_balanced: "ms \<noteq> [] \<Longrightarrow> json_balanced (json_object ms)"
proof -
  assume "ms \<noteq> []"
  from object_inside [OF this] obtain inside where
    o: "json_object ms = 123 # inside @ [125]" and
    s: "json_scan (False, False, 1) inside = (False, False, 1)"
    by blast
  show ?thesis
    unfolding o
    by (simp add: json_balanced_def json_ws_def json_scan_Cons json_scan_append json_scan_Nil s)
qed

lemma object_prefix_not_balanced:
  assumes "ms \<noteq> []" and "n < length (json_object ms)"
  shows "\<not> json_balanced (take n (json_object ms))"
proof (cases n)
  case 0
  then show ?thesis by (simp add: json_balanced_def)
next
  case (Suc k)
  from object_inside [OF assms(1)] obtain inside where
    o: "json_object ms = 123 # inside @ [125]" and
    t: "steady 1 (False, False, 1) inside"
    by blast
  from assms(2) Suc o have k: "k \<le> length inside" by simp
  have "take n (json_object ms) = 123 # take k inside"
    using Suc k by (simp add: o)
  moreover have "snd (snd (json_scan (False, False, 1) (take k inside))) = 1"
    by (rule steady_take [OF t])
  ultimately have "snd (snd (json_scan (False, False, 0) (take n (json_object ms)))) = 1"
    by (simp add: json_scan_Cons)
  then show ?thesis by (auto simp: json_balanced_def)
qed

lemma progress_members_not_empty: "progress_members timestamp p \<noteq> []"
  by (simp add: progress_members_def)

lemma json_dumps_balanced: "json_balanced (json_dumps timestamp p)"
  by (simp add: json_dumps_def object_balanced progress_members_not_empty)

lemma json_dumps_prefix_not_balanced:
  "n < length (json_dumps timestamp p) \<Longrightarrow> \<not> json_balanced (take n (json_dumps timestamp p))"
  unfolding json_dumps_def
  by (rule object_prefix_not_balanced [OF progress_members_not_empty])

lemma json_dumps_prefix_balanced_iff:
  "json_balanced (take n (json_dumps timestamp p)) \<longleftrightarrow> length (json_dumps timestamp p) \<le> n"
  using json_dumps_prefix_not_balanced [of n timestamp p] json_dumps_balanced [of timestamp p]
  by (cases "n < length (json_dumps timestamp p)") simp_all

text \<open>The text of a string with escapes, and of two documents.\<close>

lemma json_string_example:
  "json_string [97, 34, 92, 10, 127, 233, 128512]
     = [34] @ ustr ''a'' @ [92, 34] @ [92, 92] @ [92] @ ustr ''n'' @ [92] @ ustr ''u007f''
       @ [92] @ ustr ''u00e9'' @ [92] @ ustr ''ud83d'' @ [92] @ ustr ''ude00'' @ [34]"
  by (simp add: json_string_def json_escape_def hex4_def hex_digit_def ustr_def)

lemma json_dumps_example:
  "json_dumps example_timestamp (progress_data licenses_csv 7 0 7 None False)
     = ustr ''{'' @ [10]
       @ ustr ''  '' @ [34] @ ustr ''last_processed_index'' @ [34] @ ustr '': 7,'' @ [10]
       @ ustr ''  '' @ [34] @ ustr ''timestamp'' @ [34] @ ustr '': ''
           @ [34] @ ustr ''2025-01-01T00:00:00'' @ [34] @ ustr '','' @ [10]
       @ ustr ''  '' @ [34] @ ustr ''file_path'' @ [34] @ ustr '': ''
           @ [34] @ ustr ''./test-licenses.csv'' @ [34] @ ustr '','' @ [10]
       @ ustr ''  '' @ [34] @ ustr ''total_found'' @ [34] @ ustr '': 0,'' @ [10]
       @ ustr ''  '' @ [34] @ ustr ''total_processed'' @ [34] @ ustr '': 7'' @ [10]
       @ ustr ''}''"
  by (simp add: json_dumps_def json_object_def progress_members_def json_member_def
      json_string_def json_escape_def py_repr_int_def py_repr_nat.simps progress_data_def
      example_timestamp_def licenses_csv_def ustr_def)

lemma json_dumps_error_example:
  "json_dumps example_timestamp (progress_data licenses_csv 12 3 10 (Some Blocked) False)
     = ustr ''{'' @ [10]
       @ ustr ''  '' @ [34] @ ustr ''last_processed_index'' @ [34] @ ustr '': 12,'' @ [10]
       @ ustr ''  '' @ [34] @ ustr ''timestamp'' @ [34] @ ustr '': ''
           @ [34] @ ustr ''2025-01-01T00:00:00'' @ [34] @ ustr '','' @ [10]
       @ ustr ''  '' @ [34] @ ustr ''file_path'' @ [34] @ ustr '': ''
           @ [34] @ ustr ''./test-licenses.csv'' @ [34] @ ustr '','' @ [10]
       @ ustr ''  '' @ [34] @ ustr ''total_found'' @ [34] @ ustr '': 3,'' @ [10]
       @ ustr ''  '' @ [34] @ ustr ''total_processed'' @ [34] @ ustr '': 10,'' @ [10]
       @ ustr ''  '' @ [34] @ ustr ''error'' @ [34] @ ustr '': ''
           @ [34] @ ustr ''Blocked by server'' @ [34] @ [10]
       @ ustr ''}''"
  by (simp add: json_dumps_def json_object_def progress_members_def json_member_def
      json_string_def json_escape_def py_repr_int_def py_repr_nat.simps progress_data_def
      example_timestamp_def licenses_csv_def ustr_def)

lemma json_dumps_example_start:
  "take 29 (json_dumps example_timestamp (progress_data licenses_csv 7 0 7 None False))
     = [123, 10, 32, 32, 34] @ ustr ''last_processed_index'' @ [34, 58, 32, 55]"
  by (simp add: json_dumps_def json_object_def progress_members_def json_member_def
      json_string_def json_escape_def py_repr_int_def py_repr_nat.simps progress_data_def
      ustr_def)

lemma json_dumps_example_length:
  "29 < length (json_dumps example_timestamp (progress_data licenses_csv 7 0 7 None False))"
  by (simp add: json_dumps_def json_object_def progress_members_def json_member_def
      json_string_def progress_data_def)


section \<open>The closed examples, evaluated\<close>

lemma rows_eligible:
  "expiration_ok decimal row_ann" "names_ok row_ann"
  "expiration_ok decimal row_bob" "names_ok row_bob"
  by (simp_all add: row_ann_def row_bob_def expiration_ok_def expiration_year_def names_ok_def
        dict_get_def ustr_def py_strip_def py_isspace_def py_int_def int_space_def
        digit_value_def)

lemma filter_valid_rows_example:
  "filter_valid_rows decimal [row_ann, row_bob] = [(0, row_ann), (1, row_bob)]"
  by (simp add: filter_valid_rows_def rows_eligible)

lemma all_found_search:
  "search_legacy_obituary 3 (all_found idx) = (Returned True, [Get 0])"
  "async_search 3 (all_found idx) = (Counted True, [Get 0])"
  by (simp_all add: search_legacy_obituary_def async_search_def search_attempts.simps
        async_attempts.simps all_found_def has_captcha_empty records_found_def)

lemma first_row_status_search:
  "0 < idx \<Longrightarrow> async_search 3 (first_row_status status idx) = (Counted True, [Get 0])"
  "async_search 3 (first_row_status 403 0) = (NotCounted, [Get 0])"
  "async_search 3 (first_row_status 429 0)
     = (NotCounted, [Get 0, Sleep 30, Get 1, Sleep 60, Get 2, Sleep 120])"
  by (simp_all add: async_search_def async_attempts.simps first_row_status_def has_captcha_empty
        records_found_def after_def numeral_3_eq_3)

lemma completion_order_two:
  "completion_order 2 [] [a, b] = [a, b]"
  "completion_order 2 [Suc 0] [a, b] = [b, a]"
  "completion_order 2 choices [a] = [a]"
  by (simp_all add: completion_order.simps [of _ _ "[a, b]"] completion_order.simps [of _ _ "[a]"]
        completion_order.simps [of _ _ "[b]"] completion_order.simps [of _ _ "[]"] Let_def)

lemma complete_task_example:
  "0 < idx \<Longrightarrow> complete_task (first_row_status status) 3 st (idx, row)
     = st\<lparr>total_processed := Suc (total_processed st), total_found := Suc (total_found st),
          results := results st @ [(idx, row)]\<rparr>"
  "complete_task (first_row_status 403) 3 st (0, row) = st"
  "complete_task (first_row_status 429) 3 st (0, row) = st"
  "complete_task all_found 3 st (idx, row)
     = st\<lparr>total_processed := Suc (total_processed st), total_found := Suc (total_found st),
          results := results st @ [(idx, row)]\<rparr>"
  by (simp_all add: complete_task_def first_row_status_search all_found_search)

lemma async_blocked_run:
  "process_licenses_async decimal (first_row_status 403) licenses_csv [row_ann, row_bob] 1 2
     in_order Missing
   = Some (Returned \<lparr>total_found = 1, total_processed = 1, results = [],
             written = [(1, row_bob)],
             progress_file = Document (progress_data licenses_csv 1 1 1 None False),
             searched = [0, 1]\<rparr>)"
  by (simp add: process_licenses_async_def filter_valid_rows_example process_batches.simps
        process_batch_def rows_eligible completion_order_two complete_task_example
        initial_state_def save_progress_def Let_def)

lemma async_limited_run:
  "process_licenses_async decimal (first_row_status 429) licenses_csv [row_ann, row_bob] 1 2
     in_order Missing
   = Some (Returned \<lparr>total_found = 1, total_processed = 1, results = [],
             written = [(1, row_bob)],
             progress_file = Document (progress_data licenses_csv 1 1 1 None False),
             searched = [0, 1]\<rparr>)"
  by (simp add: process_licenses_async_def filter_valid_rows_example process_batches.simps
        process_batch_def rows_eligible completion_order_two complete_task_example
        initial_state_def save_progress_def Let_def)

lemma async_reversed_batch:
  "map_option written
     (process_batches all_found licenses_csv 2 2 second_first 0 [(0, row_ann), (1, row_bob)]
        (initial_state Missing))
   = Some [(1, row_bob), (0, row_ann)]"
  by (simp add: process_batches.simps
        process_batch_def rows_eligible completion_order_two complete_task_example
        initial_state_def save_progress_def Let_def second_first_def)

lemma sync_resumed_run:
  "process_licenses decimal all_found licenses_csv [row_ann, row_bob]
     (Document (progress_data licenses_csv 1 0 1 None False))
   = (False, \<lparr>total_found = 1, total_processed = 1, results = [],
             written = [(1, row_bob)],
             progress_file = Document (progress_data licenses_csv 1 1 1 (Some OutCsvUndefined) False),
             searched = [1]\<rparr>)"
  by (simp add: process_licenses_def rows_eligible all_found_search
        initial_state_def save_progress_def Let_def progress_data_def)

lemma captcha_500_search:
  "search_legacy_obituary 3 captcha_500 = (Raised CaptchaRequired, [Get 0])"
  "async_search 3 captcha_500 = (NotCounted, [Get 0])"
  by (simp_all add: search_legacy_obituary_def async_search_def search_attempts.simps
        async_attempts.simps captcha_500_def has_captcha_def py_lower_ascii_def ustr_def)

lemma first_row_status_sync_search:
  "0 < idx \<Longrightarrow> search_legacy_obituary 3 (first_row_status status idx) = (Returned True, [Get 0])"
  "search_legacy_obituary 3 (first_row_status 403 0) = (Raised Blocked, [Get 0])"
  "search_legacy_obituary 3 (first_row_status 429 0)
     = (Raised RateLimited, [Get 0, Sleep 60, Get 1, Sleep 120, Get 2])"
  "search_legacy_obituary 3 (first_row_status 503 0)
     = (Returned False, [Get 0, Sleep 5, Get 1, Sleep 5, Get 2])"
  by (simp_all add: search_legacy_obituary_def search_attempts.simps first_row_status_def
        has_captcha_empty records_found_def after_def numeral_3_eq_3)

lemma sync_blocked_run:
  "process_licenses decimal (first_row_status 403) licenses_csv [row_ann, row_bob] Missing
   = (False, \<lparr>total_found = 0, total_processed = 0, results = [], written = [],
             progress_file = Document (progress_data licenses_csv 0 0 0 (Some Blocked) False),
             searched = [0]\<rparr>)"
  by (simp add: process_licenses_def rows_eligible first_row_status_sync_search
        initial_state_def save_progress_def Let_def)

lemma sync_limited_run:
  "process_licenses decimal (first_row_status 429) licenses_csv [row_ann, row_bob] Missing
   = (False, \<lparr>total_found = 0, total_processed = 0, results = [], written = [],
             progress_file = Document (progress_data licenses_csv 0 0 0 (Some RateLimited) False),
             searched = [0]\<rparr>)"
  by (simp add: process_licenses_def rows_eligible first_row_status_sync_search
        initial_state_def save_progress_def Let_def)

lemma sync_unavailable_run:
  "process_licenses decimal (first_row_status 503) licenses_csv [row_ann, row_bob] Missing
   = (False, \<lparr>total_found = 1, total_processed = 2, results = [], written = [(1, row_bob)],
             progress_file =
               Document (progress_data licenses_csv 1 1 2 (Some OutCsvUndefined) False),
             searched = [0, 1]\<rparr>)"
  by (simp add: process_licenses_def rows_eligible first_row_status_sync_search
        initial_state_def save_progress_def Let_def numeral_2_eq_2)

lemma async_resumed_run:
  "process_licenses_async decimal all_found licenses_csv [row_ann, row_bob] 1 2 in_order
     (Document (progress_data licenses_csv 1 0 1 None False))
   = Some (Returned \<lparr>total_found = 1, total_processed = 1, results = [],
             written = [(1, row_bob)],
             progress_file = Document (progress_data licenses_csv 1 1 1 None False),
             searched = [1]\<rparr>)"
  by (simp add: process_licenses_async_def filter_valid_rows_example process_batches.simps
        process_batch_def rows_eligible completion_order_two complete_task_example
        initial_state_def save_progress_def Let_def progress_data_def)

lemma async_two_batches:
  "map_option written
     (process_batches all_found licenses_csv 1 2 second_first 0 [(0, row_ann), (1, row_bob)]
        (initial_state Missing))
   = Some [(0, row_ann), (1, row_bob)]"
  by (simp add: process_batches.simps
        process_batch_def rows_eligible completion_order_two complete_task_example
        initial_state_def save_progress_def Let_def second_first_def)

lemma completion_order_one: "completion_order (Suc 0) choices pending = pending"
proof (induction pending arbitrary: choices)
  case Nil
  show ?case by (simp add: completion_order.simps [of _ _ "[]"])
next
  case (Cons x xs)
  then show ?case by (simp add: completion_order.simps [of _ _ "x # xs"])
qed


section \<open>The claims about the fetchers and the schedulers\<close>

text \<open>
  C1 (the code does not do what the claim says). In the concurrent program a reply 403,
  or a reply whose text shows a captcha, is not retried, but it is no error either: the
  task returns \<^verbatim>\<open>(False, row_data)\<close>, the batch and the run go on, the next row is
  searched and written, and the progress saved after the batches records no error. The
  sequential program, on the same rows and replies, raises \<open>Blocked\<close>, saves the
  progress with the error and searches no further row.
\<close>

theorem concurrent_run_continues_after_403:
  "async_search 3 (first_row_status 403 0) = (NotCounted, [Get 0]) \<and>
   async_search 3 captcha_500 = (NotCounted, [Get 0]) \<and>
   process_licenses_async no_decimal (first_row_status 403) licenses_csv [row_ann, row_bob] 1 2
     in_order Missing
   = Some (Returned \<lparr>total_found = 1, total_processed = 1, results = [],
             written = [(1, row_bob)],
             progress_file = Document (progress_data licenses_csv 1 1 1 None False),
             searched = [0, 1]\<rparr>) \<and>
   process_licenses no_decimal (first_row_status 403) licenses_csv [row_ann, row_bob] Missing
   = (False, \<lparr>total_found = 0, total_processed = 0, results = [], written = [],
             progress_file = Document (progress_data licenses_csv 0 0 0 (Some Blocked) False),
             searched = [0]\<rparr>)"
  by (simp only: first_row_status_search captcha_500_search async_blocked_run sync_blocked_run
        simp_thms)

text \<open>
  C4 (the code does not do what the claim says). In the concurrent program three
  replies 429 are followed by the sleeps 30, 60 and 120 and then by the final
  \<^verbatim>\<open>return False, row_data\<close>: the exhaustion is reported as "not found", and the run
  goes on with the next row and records no error. The sequential program sleeps 60 and
  120, raises \<open>RateLimited\<close> at the third reply and stops the run.
\<close>

theorem concurrent_429_exhaustion_returns_not_found:
  "async_search 3 (first_row_status 429 0)
     = (NotCounted, [Get 0, Sleep 30, Get 1, Sleep 60, Get 2, Sleep 120]) \<and>
   process_licenses_async no_decimal (first_row_status 429) licenses_csv [row_ann, row_bob] 1 2
     in_order Missing
   = Some (Returned \<lparr>total_found = 1, total_processed = 1, results = [],
             written = [(1, row_bob)],
             progress_file = Document (progress_data licenses_csv 1 1 1 None False),
             searched = [0, 1]\<rparr>) \<and>
   process_licenses no_decimal (first_row_status 429) licenses_csv [row_ann, row_bob] Missing
   = (False, \<lparr>total_found = 0, total_processed = 0, results = [], written = [],
             progress_file =
               Document (progress_data licenses_csv 0 0 0 (Some RateLimited) False),
             searched = [0]\<rparr>)"
  by (simp only: first_row_status_search async_limited_run sync_limited_run simp_thms)

text \<open>
  C3, as the claim states it, fails: with two tasks in flight of which the second ends
  first, the batch of rows 0 and 1, both found, is appended as row 1, row 0.
\<close>

theorem batch_written_in_reverse_of_input_order:
  "map_option written
     (process_batches all_found licenses_csv 2 2 second_first 0 [(0, row_ann), (1, row_bob)]
        (initial_state Missing))
   = Some [(1, row_bob), (0, row_ann)] \<and>
   map_option written
     (process_batches all_found licenses_csv 2 2 second_first 0 [(0, row_ann), (1, row_bob)]
        (initial_state Missing))
   \<noteq> Some [(0, row_ann), (1, row_bob)]"
  unfolding async_reversed_batch by simp

text \<open>
  C3, amended. The loop over the batches returns (given at least one task in flight and a
  positive batch size), and what it appends to the output file is, batch after batch,
  the found rows of the batch in the order in which their tasks ended: the results are
  collected while the batch runs and written when all its tasks have ended, each task
  ending exactly once. That order is the input order when a single task is in flight.
\<close>

theorem batch_rows_written_in_completion_order:
  assumes "0 < max_concurrent" "0 < batch_size" "results st = []"
  shows "(\<exists>st'. process_batches web path batch_size max_concurrent sched n valid_rows st = Some st' \<and>
            written st' = written st @
              concat (map (\<lambda>(k, batch). batch_output web max_concurrent (sched k) batch)
                        (enumerate n (batches batch_size valid_rows)))) \<and>
         mset (completion_order max_concurrent choices (batch_tasks batch))
           = mset (batch_tasks batch) \<and>
         (max_concurrent = 1 \<longrightarrow>
            batch_output web max_concurrent choices batch = filter (kept web 3) (batch_tasks batch))"
proof -
  from process_batches_written [OF assms, of web path sched n valid_rows]
  have "\<exists>st'. process_batches web path batch_size max_concurrent sched n valid_rows st = Some st' \<and>
            written st' = written st @
              concat (map (\<lambda>(k, batch). batch_output web max_concurrent (sched k) batch)
                        (enumerate n (batches batch_size valid_rows)))"
    by blast
  moreover have "mset (completion_order max_concurrent choices (batch_tasks batch))
           = mset (batch_tasks batch)"
    using assms(1) by (rule completion_order_mset)
  moreover have "max_concurrent = 1 \<longrightarrow>
            batch_output web max_concurrent choices batch = filter (kept web 3) (batch_tasks batch)"
    by (simp add: batch_output_def completion_order_one)
  ultimately show ?thesis by blast
qed

theorem batch_rows_written_in_completion_order_witness:
  "(0::nat) < 2 \<and> (0::nat) < 1 \<and> results (initial_state Missing) = [] \<and>
   map_option written
     (process_batches all_found licenses_csv 1 2 second_first 0 [(0, row_ann), (1, row_bob)]
        (initial_state Missing))
   = Some (concat (map (\<lambda>(k, batch). batch_output all_found 2 (second_first k) batch)
                     (enumerate 0 (batches 1 [(0, row_ann), (1, row_bob)])))) \<and>
   map_option written
     (process_batches all_found licenses_csv 1 2 second_first 0 [(0, row_ann), (1, row_bob)]
        (initial_state Missing))
   = Some [(0, row_ann), (1, row_bob)]"
proof -
  have h: "(0::nat) < 2" "(0::nat) < 1" "results (initial_state Missing) = []"
    by (simp_all add: initial_state_def)
  from batch_rows_written_in_completion_order [OF h, of all_found licenses_csv second_first 0
         "[(0, row_ann), (1, row_bob)]"]
  obtain st' where
    "process_batches all_found licenses_csv 1 2 second_first 0 [(0, row_ann), (1, row_bob)]
        (initial_state Missing) = Some st'"
    and "written st' = written (initial_state Missing) @
              concat (map (\<lambda>(k, batch). batch_output all_found 2 (second_first k) batch)
                        (enumerate 0 (batches 1 [(0, row_ann), (1, row_bob)])))"
    by blast
  then have "map_option written
     (process_batches all_found licenses_csv 1 2 second_first 0 [(0, row_ann), (1, row_bob)]
        (initial_state Missing))
   = Some (concat (map (\<lambda>(k, batch). batch_output all_found 2 (second_first k) batch)
                     (enumerate 0 (batches 1 [(0, row_ann), (1, row_bob)]))))"
    by (simp add: initial_state_def)
  with h async_two_batches show ?thesis by simp
qed

text \<open>
  C7. Both schedulers load the index of the checkpoint and start no search for, and so
  write no row of, an index below it (the row at the index itself is searched again).
  \<open>searched\<close> and \<open>written\<close> hold the original input indices: every written pair is a
  row of the input with its own index. The concurrent scheduler returns whenever at least
  one task may be in flight and the batch size is positive.
\<close>

theorem resume_skips_rows_before_checkpoint:
  "(\<forall>i \<in> set (searched (snd (process_licenses decimal web path rows cp))).
      load_progress cp \<le> int i \<and> i < length rows) \<and>
   (\<forall>(i, row) \<in> set (written (snd (process_licenses decimal web path rows cp))).
      load_progress cp \<le> int i \<and> i < length rows \<and> row = rows ! i) \<and>
   (0 < max_concurrent \<and> 0 < batch_size \<longrightarrow>
      (\<exists>st. process_licenses_async decimal web path rows batch_size max_concurrent sched cp
             = Some (Returned st))) \<and>
   (\<forall>st. process_licenses_async decimal web path rows batch_size max_concurrent sched cp
             = Some (Returned st) \<longrightarrow>
      (\<forall>i \<in> set (searched st). load_progress cp \<le> int i \<and> i < length rows) \<and>
      (\<forall>(i, row) \<in> set (written st).
         load_progress cp \<le> int i \<and> i < length rows \<and> row = rows ! i))"
  using process_licenses_indices [of decimal web path rows cp]
    process_licenses_async_indices [of decimal web path rows batch_size max_concurrent sched cp]
    process_licenses_async_returns [of max_concurrent batch_size decimal web path rows sched cp]
  by blast

theorem resume_skips_rows_before_checkpoint_witness:
  "load_progress (Document (progress_data licenses_csv 1 0 1 None False)) = 1 \<and>
   searched (snd (process_licenses no_decimal all_found licenses_csv [row_ann, row_bob]
      (Document (progress_data licenses_csv 1 0 1 None False)))) = [1] \<and>
   written (snd (process_licenses no_decimal all_found licenses_csv [row_ann, row_bob]
      (Document (progress_data licenses_csv 1 0 1 None False)))) = [(1, row_bob)] \<and>
   process_licenses_async no_decimal all_found licenses_csv [row_ann, row_bob] 1 2 in_order
      (Document (progress_data licenses_csv 1 0 1 None False))
     = Some (Returned \<lparr>total_found = 1, total_processed = 1, results = [],
             written = [(1, row_bob)],
             progress_file = Document (progress_data licenses_csv 1 1 1 None False),
             searched = [1]\<rparr>) \<and>
   load_progress (Document (progress_data licenses_csv 1 0 1 None False)) \<le> int 1 \<and>
   [row_ann, row_bob] ! 1 = row_bob"
proof -
  let ?cp = "Document (progress_data licenses_csv 1 0 1 None False)"
  let ?run = "process_licenses no_decimal all_found licenses_csv [row_ann, row_bob] ?cp"
  have l: "load_progress ?cp = 1" by (simp add: progress_data_def)
  have s: "searched (snd ?run) = [1]" and w: "written (snd ?run) = [(1, row_bob)]"
    unfolding sync_resumed_run by simp_all
  note a = async_resumed_run [of no_decimal]
  from resume_skips_rows_before_checkpoint
         [of no_decimal all_found licenses_csv "[row_ann, row_bob]" ?cp 2 1 in_order]
  have "\<forall>(i, row) \<in> set (written (snd ?run)).
      load_progress ?cp \<le> int i \<and> i < length [row_ann, row_bob] \<and> row = [row_ann, row_bob] ! i"
    by blast
  with w have "load_progress ?cp \<le> int 1 \<and> [row_ann, row_bob] ! 1 = row_bob"
    by simp
  with l s w a show ?thesis by (intro conjI) simp_all
qed

text \<open>
  C8. The failures of the claim are those that the earlier cases of a fetch leave over:
  a reply whose status is not 200, 429 or 403 and whose text has no captcha marker, a
  transport error or a timeout (\<open>soft_failure\<close>; both fetchers test 429, 403 and the
  captcha marker before the status). When every attempt of a search ends in such a
  failure, both fetchers sleep five seconds after every attempt but the last and then
  return "not found". The sequential scheduler then counts the row as processed, writes
  nothing and goes on with the next row; the concurrent one leaves its state as it is
  and goes on.
\<close>

theorem soft_failures_retried_then_not_found:
  "(0 < max_retries \<and> (\<forall>a < max_retries. soft_failure (http a)) \<longrightarrow>
      search_legacy_obituary max_retries http = (Returned False, retry_effects max_retries 0) \<and>
      async_search max_retries http = (NotCounted, retry_effects max_retries 0)) \<and>
   ((\<forall>a < 3. soft_failure (web idx a)) \<and> \<not> int idx < start_idx \<and>
    expiration_ok decimal row \<and> names_ok row \<longrightarrow>
      process_rows decimal web path start_idx idx (row # rows) st =
      process_rows decimal web path start_idx (Suc idx) rows
        (st\<lparr>searched := searched st @ [idx],
            total_processed := Suc (total_processed st),
            progress_file :=
              (if Suc (total_processed st) mod 10 = 0
               then save_progress path (int idx) (total_found st)
                      (Suc (total_processed st)) None False (progress_file st)
               else progress_file st)\<rparr>)) \<and>
   ((\<forall>a < 3. soft_failure (web idx a)) \<longrightarrow> complete_task web 3 st (idx, row) = st)"
proof (intro conjI impI)
  assume "0 < max_retries \<and> (\<forall>a < max_retries. soft_failure (http a))"
  then show "search_legacy_obituary max_retries http
               = (Returned False, retry_effects max_retries 0)"
    and "async_search max_retries http = (NotCounted, retry_effects max_retries 0)"
    by (simp_all add: search_legacy_obituary_def async_search_def search_attempts_all_soft
          async_attempts_all_soft)
next
  assume a: "(\<forall>a < 3. soft_failure (web idx a)) \<and> \<not> int idx < start_idx \<and>
    expiration_ok decimal row \<and> names_ok row"
  then have "search_legacy_obituary 3 (web idx) = (Returned False, retry_effects 3 0)"
    by (simp add: search_legacy_obituary_def search_attempts_all_soft)
  with a show "process_rows decimal web path start_idx idx (row # rows) st =
      process_rows decimal web path start_idx (Suc idx) rows
        (st\<lparr>searched := searched st @ [idx],
            total_processed := Suc (total_processed st),
            progress_file :=
              (if Suc (total_processed st) mod 10 = 0
               then save_progress path (int idx) (total_found st)
                      (Suc (total_processed st)) None False (progress_file st)
               else progress_file st)\<rparr>)"
    by simp
next
  assume "\<forall>a < 3. soft_failure (web idx a)"
  then have "async_search 3 (web idx) = (NotCounted, retry_effects 3 0)"
    by (simp add: async_search_def async_attempts_all_soft)
  then show "complete_task web 3 st (idx, row) = st"
    by (simp add: complete_task_def)
qed

theorem soft_failures_retried_then_not_found_witness:
  "(0::nat) < 3 \<and>
   soft_failure (first_row_status 503 0 0) \<and> soft_failure (first_row_status 503 0 1) \<and>
   soft_failure (first_row_status 503 0 2) \<and>
   \<not> int 0 < 0 \<and> expiration_ok no_decimal row_ann \<and> names_ok row_ann \<and>
   search_legacy_obituary 3 (first_row_status 503 0)
     = (Returned False, [Get 0, Sleep 5, Get 1, Sleep 5, Get 2]) \<and>
   async_search 3 (first_row_status 503 0)
     = (NotCounted, [Get 0, Sleep 5, Get 1, Sleep 5, Get 2]) \<and>
   process_rows no_decimal (first_row_status 503) licenses_csv 0 0 [row_ann, row_bob]
     (initial_state Missing)
     = process_rows no_decimal (first_row_status 503) licenses_csv 0 1 [row_bob]
         ((initial_state Missing)\<lparr>searched := [0], total_processed := 1\<rparr>) \<and>
   complete_task (first_row_status 503) 3 (initial_state Missing) (0, row_ann)
     = initial_state Missing"
proof -
  have soft: "soft_failure (first_row_status 503 0 a)" for a
    by (simp add: soft_failure_def first_row_status_def has_captcha_empty)
  have h: "(0::nat) < 3 \<and> (\<forall>a < 3. soft_failure (first_row_status 503 0 a))"
    using soft by simp
  have e: "\<not> int 0 < 0" "expiration_ok no_decimal row_ann" "names_ok row_ann"
    by (simp_all add: rows_eligible)
  have r: "retry_effects 3 0 = [Get 0, Sleep 5, Get 1, Sleep 5, Get 2]"
    by (simp add: retry_effects_def upt_conv_Cons)
  note t = soft_failures_retried_then_not_found
             [of 3 "first_row_status 503 0" "first_row_status 503" 0 0 no_decimal row_ann
                licenses_csv "[row_bob]" "initial_state Missing"]
  from t h have 1: "search_legacy_obituary 3 (first_row_status 503 0)
        = (Returned False, retry_effects 3 0)"
    and 2: "async_search 3 (first_row_status 503 0) = (NotCounted, retry_effects 3 0)"
    by blast+
  from t h e have 3: "process_rows no_decimal (first_row_status 503) licenses_csv 0 0
       [row_ann, row_bob] (initial_state Missing)
     = process_rows no_decimal (first_row_status 503) licenses_csv 0 (Suc 0) [row_bob]
         ((initial_state Missing)\<lparr>searched := searched (initial_state Missing) @ [0],
            total_processed := Suc (total_processed (initial_state Missing)),
            progress_file :=
              (if Suc (total_processed (initial_state Missing)) mod 10 = 0
               then save_progress licenses_csv (int 0) (total_found (initial_state Missing))
                      (Suc (total_processed (initial_state Missing))) None False
                      (progress_file (initial_state Missing))
               else progress_file (initial_state Missing))\<rparr>)"
    by blast
  from t h have 4: "complete_task (first_row_status 503) 3 (initial_state Missing) (0, row_ann)
     = initial_state Missing"
    by blast
  have 5: "(initial_state Missing)\<lparr>searched := searched (initial_state Missing) @ [0],
            total_processed := Suc (total_processed (initial_state Missing)),
            progress_file :=
              (if Suc (total_processed (initial_state Missing)) mod 10 = 0
               then save_progress licenses_csv (int 0) (total_found (initial_state Missing))
                      (Suc (total_processed (initial_state Missing))) None False
                      (progress_file (initial_state Missing))
               else progress_file (initial_state Missing))\<rparr>
     = (initial_state Missing)\<lparr>searched := [0], total_processed := 1\<rparr>"
    by (simp add: initial_state_def)
  from 1 2 3 4 soft e show ?thesis
    unfolding r 5 by simp
qed

text \<open>
  C9, as the claim states it, fails: a save of index 7 over a checkpoint of index 5 that
  stops right after the file was opened, or when the first 29 characters of the document
  have reached the file, leaves a file from which the next load reads index 0, neither 5
  nor 7.
\<close>

theorem interrupted_save_loses_checkpoint:
  "load_progress (Document (progress_data licenses_csv 5 0 5 None False)) = 5 \<and>
   load_progress (save_progress_until Closed (progress_data licenses_csv 7 0 7 None False)
      (Document (progress_data licenses_csv 5 0 5 None False))) = 7 \<and>
   take 0 (json_dumps example_timestamp (progress_data licenses_csv 7 0 7 None False)) = [] \<and>
   load_progress (save_progress_until (Writing example_timestamp 0)
      (progress_data licenses_csv 7 0 7 None False)
      (Document (progress_data licenses_csv 5 0 5 None False))) = 0 \<and>
   take 29 (json_dumps example_timestamp (progress_data licenses_csv 7 0 7 None False))
     = [123, 10, 32, 32, 34] @ ustr ''last_processed_index'' @ [34, 58, 32, 55] \<and>
   load_progress (save_progress_until (Writing example_timestamp 29)
      (progress_data licenses_csv 7 0 7 None False)
      (Document (progress_data licenses_csv 5 0 5 None False))) = 0"
proof -
  have "\<not> json_balanced []"
    by (simp add: json_balanced_def)
  moreover have "\<not> json_balanced ([123, 10, 32, 32, 34] @ ustr ''last_processed_index'' @ [34, 58, 32, 55])"
    by (simp add: json_balanced_def json_scan_def ustr_def)
  ultimately show ?thesis
    by (simp add: json_dumps_example_start) (simp add: progress_data_def)
qed

text \<open>
  C9, amended. \<open>save_progress\<close> overwrites the progress file in place. A call that
  stops before it opens the file leaves the file as it was. A call that stops after it
  opened the file and before the whole text of the document has reached the file leaves
  a proper prefix of that text, which is not a JSON document: the file is rejected and
  the next load reads the index 0. A call that stops once the whole text has reached the
  file, or that returns, leaves the new document, and the next load reads the saved
  index. So the next load reads the previous index, the new index, or 0.
\<close>

theorem save_progress_overwrites_in_place:
  "save_progress_until Preparing p old = old \<and>
   (n < length (json_dumps timestamp p) \<longrightarrow>
      \<not> json_balanced (take n (json_dumps timestamp p)) \<and>
      save_progress_until (Writing timestamp n) p old = Torn \<and>
      load_progress (save_progress_until (Writing timestamp n) p old) = 0) \<and>
   take (length (json_dumps timestamp p) + k) (json_dumps timestamp p) = json_dumps timestamp p \<and>
   json_balanced (json_dumps timestamp p) \<and>
   save_progress_until (Writing timestamp (length (json_dumps timestamp p) + k)) p old
     = Document p \<and>
   save_progress_until Closed p old = Document p \<and>
   load_progress (Document p) = last_processed_index p \<and>
   save_progress path idx found processed err fin old
     = Document (progress_data path idx found processed err fin) \<and>
   load_progress (save_progress path idx found processed err fin old) = idx \<and>
   load_progress (save_progress_until stage p old)
     \<in> {load_progress old, 0, last_processed_index p}"
proof -
  have a: "n < length (json_dumps timestamp p) \<longrightarrow>
      \<not> json_balanced (take n (json_dumps timestamp p)) \<and>
      save_progress_until (Writing timestamp n) p old = Torn \<and>
      load_progress (save_progress_until (Writing timestamp n) p old) = 0"
    by (simp add: json_dumps_prefix_not_balanced)
  have b: "save_progress_until (Writing timestamp (length (json_dumps timestamp p) + k)) p old
     = Document p"
    by (simp add: json_dumps_balanced)
  have c: "save_progress path idx found processed err fin old
     = Document (progress_data path idx found processed err fin)"
    by (simp add: save_progress_def)
  have d: "load_progress (save_progress path idx found processed err fin old) = idx"
    by (simp add: c progress_data_def)
  have e: "load_progress (save_progress_until stage p old)
     \<in> {load_progress old, 0, last_processed_index p}"
  proof (cases stage)
    case Preparing
    then show ?thesis by simp
  next
    case (Writing ts m)
    then show ?thesis by simp
  next
    case Closed
    then show ?thesis by simp
  qed
  from a b c d e show ?thesis
    by (simp add: json_dumps_balanced)
qed

theorem save_progress_overwrites_in_place_witness:
  "29 < length (json_dumps example_timestamp (progress_data licenses_csv 7 0 7 None False)) \<and>
   \<not> json_balanced
       (take 29 (json_dumps example_timestamp (progress_data licenses_csv 7 0 7 None False))) \<and>
   save_progress_until (Writing example_timestamp 29)
     (progress_data licenses_csv 7 0 7 None False)
     (Document (progress_data licenses_csv 5 0 5 None False)) = Torn \<and>
   load_progress (save_progress_until (Writing example_timestamp 29)
     (progress_data licenses_csv 7 0 7 None False)
     (Document (progress_data licenses_csv 5 0 5 None False))) = 0 \<and>
   save_progress_until Preparing (progress_data licenses_csv 7 0 7 None False)
     (Document (progress_data licenses_csv 5 0 5 None False))
     = Document (progress_data licenses_csv 5 0 5 None False) \<and>
   load_progress (save_progress licenses_csv 7 0 7 None False
     (Document (progress_data licenses_csv 5 0 5 None False))) = 7"
proof -
  note t = save_progress_overwrites_in_place
          [of "progress_data licenses_csv 7 0 7 None False"
              "Document (progress_data licenses_csv 5 0 5 None False)"
              29 example_timestamp 0 licenses_csv 7 0 7 None False Closed]
  note n = json_dumps_example_length
  from t n show ?thesis by blast
qed


section \<open>Further properties of the fetchers and the schedulers\<close>

lemma search_attempts_all_limited:
  assumes "\<forall>a < max_retries. rate_limited (http a)" "attempt < max_retries"
  shows "search_attempts max_retries http attempt
           = (Raised RateLimited,
              backoff_effects 60 attempt (max_retries - 1) @ [Get (max_retries - 1)])"
  using assms(2)
proof (induction "max_retries - attempt" arbitrary: attempt)
  case 0
  then show ?case by simp
next
  case (Suc n)
  from Suc.prems assms(1) have "rate_limited (http attempt)" by simp
  then obtain body record_count where r: "http attempt = Reply 429 body record_count"
    by (cases "http attempt") (simp_all add: rate_limited_def)
  show ?case
  proof (cases "attempt < max_retries - 1")
    case True
    then have "Suc attempt < max_retries" by simp
    moreover from Suc.hyps(2) have "n = max_retries - Suc attempt" by simp
    ultimately have "search_attempts max_retries http (Suc attempt)
        = (Raised RateLimited,
           backoff_effects 60 (Suc attempt) (max_retries - 1) @ [Get (max_retries - 1)])"
      using Suc.hyps(1) by blast
    moreover from True have "[attempt..<max_retries - 1] = attempt # [Suc attempt..<max_retries - 1]"
      by (simp add: upt_conv_Cons)
    ultimately show ?thesis
      using True Suc.prems r
      by (simp add: search_attempts.simps [of _ _ attempt] after_def backoff_effects_def)
  next
    case False
    with Suc.prems have "attempt = max_retries - 1" by simp
    then have "backoff_effects 60 attempt (max_retries - 1) = []"
      by (simp add: backoff_effects_def)
    moreover from False Suc.prems r
    have "search_attempts max_retries http attempt = (Raised RateLimited, [Get attempt])"
      by (simp add: search_attempts.simps [of _ _ attempt])
    ultimately show ?thesis using \<open>attempt = max_retries - 1\<close> by simp
  qed
qed

lemma async_attempts_all_limited:
  assumes "\<forall>a < max_retries. rate_limited (http a)" "attempt \<le> max_retries"
  shows "async_attempts max_retries http attempt
           = (NotCounted, backoff_effects 30 attempt max_retries)"
  using assms(2)
proof (induction "max_retries - attempt" arbitrary: attempt)
  case 0
  then have "attempt = max_retries" by simp
  then show ?case
    by (simp add: async_attempts.simps [of max_retries http max_retries] backoff_effects_def)
next
  case (Suc n)
  then have lt: "attempt < max_retries" by simp
  with assms(1) have "rate_limited (http attempt)" by simp
  then obtain body record_count where r: "http attempt = Reply 429 body record_count"
    by (cases "http attempt") (simp_all add: rate_limited_def)
  from Suc.hyps(2) have "n = max_retries - Suc attempt" by simp
  moreover from lt have "Suc attempt \<le> max_retries" by simp
  ultimately have "async_attempts max_retries http (Suc attempt)
        = (NotCounted, backoff_effects 30 (Suc attempt) max_retries)"
    using Suc.hyps(1) by blast
  moreover from lt have "[attempt..<max_retries] = attempt # [Suc attempt..<max_retries]"
    by (simp add: upt_conv_Cons)
  ultimately show ?case
    using lt r
    by (simp add: async_attempts.simps [of _ _ attempt] after_def backoff_effects_def)
qed

lemma process_rows_counters:
  "total_found st \<le> total_processed st \<Longrightarrow>
   total_found (snd (process_rows decimal web path K idx rows st))
     \<le> total_processed (snd (process_rows decimal web path K idx rows st))"
proof (induction rows arbitrary: idx st)
  case Nil
  then show ?case by simp
next
  case (Cons row rows)
  show ?case
  proof (cases "int idx < K \<or> \<not> expiration_ok decimal row \<or> \<not> names_ok row")
    case True
    then have "process_rows decimal web path K idx (row # rows) st
                 = process_rows decimal web path K (Suc idx) rows st"
      by auto
    with Cons.IH [OF Cons.prems] show ?thesis by simp
  next
    case False
    show ?thesis
    proof (cases "fst (search_legacy_obituary 3 (web idx))")
      case (Raised e)
      with False Cons.prems show ?thesis by simp
    next
      case (Returned found)
      show ?thesis
      proof (cases found)
        case True
        with False Returned Cons.prems show ?thesis by simp
      next
        case nf: False
        define st' where "st' = st\<lparr>searched := searched st @ [idx],
                    total_processed := Suc (total_processed st),
                    progress_file :=
                      (if Suc (total_processed st) mod 10 = 0
                       then save_progress path (int idx) (total_found st)
                              (Suc (total_processed st)) None False (progress_file st)
                       else progress_file st)\<rparr>"
        from False Returned nf
        have "process_rows decimal web path K idx (row # rows) st
                 = process_rows decimal web path K (Suc idx) rows st'"
          by (simp add: st'_def)
        moreover from Cons.prems have "total_found st' \<le> total_processed st'"
          by (simp add: st'_def)
        ultimately show ?thesis
          using Cons.IH [of st' "Suc idx"] by simp
      qed
    qed
  qed
qed

lemma foldl_complete_task_counters:
  "total_found st \<le> total_processed st \<Longrightarrow>
   total_found (foldl (complete_task web r) st ts)
     \<le> total_processed (foldl (complete_task web r) st ts)"
proof (induction ts arbitrary: st)
  case Nil
  then show ?case by simp
next
  case (Cons t ts)
  from Cons.prems have "total_found (complete_task web r st t)
      \<le> total_processed (complete_task web r st t)"
    by (simp add: complete_task_def split: task_end.splits)
  from Cons.IH [OF this] show ?case by simp
qed

lemma process_batches_counters:
  assumes "process_batches web path batch_size max_concurrent sched n valid_rows st = Some st'"
    and "total_found st \<le> total_processed st"
  shows "total_found st' \<le> total_processed st'"
  using assms
proof (induction web path batch_size max_concurrent sched n valid_rows st
        rule: process_batches.induct)
  case (1 web path batch_size max_concurrent sched n valid_rows st)
  show ?case
  proof (cases "valid_rows = [] \<or> batch_size = 0")
    case True
    with "1.prems" show ?thesis
      by (auto simp: process_batches.simps [of _ _ _ _ _ _ valid_rows])
  next
    case False
    define batch where "batch = take batch_size valid_rows"
    define last_idx where "last_idx = fst (last batch)"
    from "1.prems"(1) False obtain st1 where
      st1: "process_batch web max_concurrent 3 (sched n) batch st = Some st1"
      by (auto simp: process_batches.simps [of _ _ _ _ _ _ valid_rows] Let_def batch_def
            split: option.splits)
    define st2 where "st2 = st1\<lparr>progress_file :=
         save_progress path (int last_idx) (total_found st1) (total_processed st1) None False
           (progress_file st1)\<rparr>"
    define st3 where "st3 = (if results st2 \<noteq> []
         then st2\<lparr>written := written st2 @ results st2, results := []\<rparr> else st2)"
    have run: "process_batches web path batch_size max_concurrent sched (Suc n)
              (drop batch_size valid_rows) st3 = Some st'"
      using "1.prems"(1) False st1
      by (simp add: process_batches.simps [of _ _ _ _ _ _ valid_rows] Let_def batch_def [symmetric]
            last_idx_def [symmetric] st2_def [symmetric] st3_def [symmetric])
    from st1 "1.prems"(2) have "total_found st1 \<le> total_processed st1"
      by (auto simp: process_batch_def Let_def foldl_complete_task_counters split: if_splits)
    then have "total_found st3 \<le> total_processed st3"
      by (simp add: st3_def st2_def)
    from "1.IH" [OF False batch_def last_idx_def st1 st2_def st3_def run this]
    show ?thesis .
  qed
qed

lemma process_rows_first_found:
  "written (snd (process_rows decimal web path K idx rows st)) = written st \<or>
   (\<exists>i row p. written (snd (process_rows decimal web path K idx rows st)) = written st @ [(i, row)] \<and>
      \<not> fst (process_rows decimal web path K idx rows st) \<and>
      progress_file (snd (process_rows decimal web path K idx rows st)) = Document p \<and>
      error p = Some OutCsvUndefined)"
proof (induction rows arbitrary: idx st)
  case Nil
  show ?case by simp
next
  case (Cons row rows)
  show ?case
  proof (cases "int idx < K \<or> \<not> expiration_ok decimal row \<or> \<not> names_ok row")
    case True
    then have "process_rows decimal web path K idx (row # rows) st
                 = process_rows decimal web path K (Suc idx) rows st"
      by auto
    with Cons.IH [of "Suc idx" st] show ?thesis by simp
  next
    case False
    show ?thesis
    proof (cases "fst (search_legacy_obituary 3 (web idx))")
      case (Raised e)
      with False show ?thesis by simp
    next
      case (Returned found)
      show ?thesis
      proof (cases found)
        case True
        with False Returned show ?thesis
          by (simp add: save_progress_def progress_data_def)
      next
        case nf: False
        define st' where "st' = st\<lparr>searched := searched st @ [idx],
                    total_processed := Suc (total_processed st),
                    progress_file :=
                      (if Suc (total_processed st) mod 10 = 0
                       then save_progress path (int idx) (total_found st)
                              (Suc (total_processed st)) None False (progress_file st)
                       else progress_file st)\<rparr>"
        from False Returned nf
        have "process_rows decimal web path K idx (row # rows) st
                 = process_rows decimal web path K (Suc idx) rows st'"
          by (simp add: st'_def)
        moreover have "written st' = written st" by (simp add: st'_def)
        ultimately show ?thesis
          using Cons.IH [of "Suc idx" st'] by simp
      qed
    qed
  qed
qed

text \<open>
  The sequential run appends at most one row to the output: the row of the first search
  that finds a record is written, the \<^verbatim>\<open>NameError\<close> of the next statement ends the
  run, and the progress is saved with that error.
\<close>

theorem sequential_run_stops_at_first_found_row:
  "length (written (snd (process_licenses decimal web path rows cp))) \<le> 1 \<and>
   (written (snd (process_licenses decimal web path rows cp)) \<noteq> [] \<longrightarrow>
      \<not> fst (process_licenses decimal web path rows cp) \<and>
      (\<exists>p. progress_file (snd (process_licenses decimal web path rows cp)) = Document p \<and>
           error p = Some OutCsvUndefined))"
  using process_rows_first_found [of decimal web path "load_progress cp" 0 rows "initial_state cp"]
  by (auto simp: process_licenses_def Let_def initial_state_def)

theorem sequential_run_stops_at_first_found_row_witness:
  "written (snd (process_licenses no_decimal all_found licenses_csv [row_ann, row_bob] Missing))
     = [(0, row_ann)] \<and>
   \<not> fst (process_licenses no_decimal all_found licenses_csv [row_ann, row_bob] Missing) \<and>
   searched (snd (process_licenses no_decimal all_found licenses_csv [row_ann, row_bob] Missing))
     = [0]"
proof -
  let ?run = "process_licenses no_decimal all_found licenses_csv [row_ann, row_bob] Missing"
  have r: "?run = (False, \<lparr>total_found = 1, total_processed = 1, results = [],
             written = [(0, row_ann)],
             progress_file =
               Document (progress_data licenses_csv 0 1 1 (Some OutCsvUndefined) False),
             searched = [0]\<rparr>)"
    by (simp add: process_licenses_def rows_eligible all_found_search
          initial_state_def save_progress_def Let_def)
  then have w: "written (snd ?run) = [(0, row_ann)]" and s: "searched (snd ?run) = [0]"
    by simp_all
  from w have "written (snd ?run) \<noteq> []" by simp
  with sequential_run_stops_at_first_found_row [of no_decimal all_found licenses_csv
         "[row_ann, row_bob]" Missing]
  have "\<not> fst ?run" by blast
  with w s show ?thesis by blast
qed

text \<open>
  The invariant of the counters: at the end of a run of either scheduler the number of
  rows found is at most the number of rows processed.
\<close>

theorem counters_found_le_processed:
  "total_found (snd (process_licenses decimal web path rows cp))
     \<le> total_processed (snd (process_licenses decimal web path rows cp)) \<and>
   (\<forall>st. process_licenses_async decimal web path rows batch_size max_concurrent sched cp
            = Some (Returned st) \<longrightarrow> total_found st \<le> total_processed st)"
proof
  show "total_found (snd (process_licenses decimal web path rows cp))
     \<le> total_processed (snd (process_licenses decimal web path rows cp))"
    using process_rows_counters [of "initial_state cp" decimal web path "load_progress cp" 0 rows]
    by (simp add: process_licenses_def Let_def initial_state_def)
  show "\<forall>st. process_licenses_async decimal web path rows batch_size max_concurrent sched cp
            = Some (Returned st) \<longrightarrow> total_found st \<le> total_processed st"
  proof (intro allI impI)
    fix st
    assume run: "process_licenses_async decimal web path rows batch_size max_concurrent sched cp
            = Some (Returned st)"
    define valid_rows where "valid_rows = filter (\<lambda>(idx, row). load_progress cp \<le> int idx)
                         (filter_valid_rows decimal rows)"
    note run' = run [unfolded process_licenses_async_unfold Let_def, folded valid_rows_def]
    show "total_found st \<le> total_processed st"
    proof (cases "valid_rows = []")
      case True
      with run' have "st = initial_state cp" by simp
      then show ?thesis by (simp add: initial_state_def)
    next
      case False
      with run' have "batch_size \<noteq> 0" by (cases "batch_size = 0") simp_all
      with run' False
      have "process_batches web path batch_size max_concurrent sched 0 valid_rows
                   (initial_state cp) = Some st"
        by auto
      from process_batches_counters [OF this] show ?thesis
        by (simp add: initial_state_def)
    qed
  qed
qed

theorem counters_found_le_processed_witness:
  "process_licenses_async no_decimal (first_row_status 403) licenses_csv [row_ann, row_bob] 1 2
     in_order Missing
   = Some (Returned \<lparr>total_found = 1, total_processed = 1, results = [],
             written = [(1, row_bob)],
             progress_file = Document (progress_data licenses_csv 1 1 1 None False),
             searched = [0, 1]\<rparr>) \<and>
   total_found \<lparr>total_found = 1, total_processed = 1, results = [],
             written = [(1, row_bob)],
             progress_file = Document (progress_data licenses_csv 1 1 1 None False),
             searched = [0, 1]\<rparr>
   \<le> total_processed \<lparr>total_found = 1, total_processed = 1, results = [],
             written = [(1, row_bob)],
             progress_file = Document (progress_data licenses_csv 1 1 1 None False),
             searched = [0, 1]\<rparr>"
proof -
  note a = async_blocked_run [of no_decimal]
  from counters_found_le_processed
         [of no_decimal "first_row_status 403" licenses_csv "[row_ann, row_bob]" Missing 1 2 in_order]
    a
  show ?thesis by blast
qed

text \<open>
  Replies 429 at every attempt: the sequential fetcher sleeps \<open>60 * 2 ^ a\<close> seconds
  after every attempt \<open>a\<close> but the last and raises \<open>RateLimited\<close> at the last; the
  concurrent fetcher sleeps \<open>30 * 2 ^ a\<close> seconds after every attempt, the last
  included, and returns without counting the row.
\<close>

theorem rate_limit_backoff:
  "0 < max_retries \<and> (\<forall>a < max_retries. rate_limited (http a)) \<longrightarrow>
     search_legacy_obituary max_retries http
       = (Raised RateLimited,
          backoff_effects 60 0 (max_retries - 1) @ [Get (max_retries - 1)]) \<and>
     async_search max_retries http = (NotCounted, backoff_effects 30 0 max_retries)"
  by (simp add: search_legacy_obituary_def async_search_def search_attempts_all_limited
        async_attempts_all_limited)

theorem rate_limit_backoff_witness:
  "(0::nat) < 3 \<and> rate_limited (first_row_status 429 0 0) \<and>
   rate_limited (first_row_status 429 0 1) \<and> rate_limited (first_row_status 429 0 2) \<and>
   search_legacy_obituary 3 (first_row_status 429 0)
     = (Raised RateLimited, [Get 0, Sleep 60, Get 1, Sleep 120, Get 2]) \<and>
   async_search 3 (first_row_status 429 0)
     = (NotCounted, [Get 0, Sleep 30, Get 1, Sleep 60, Get 2, Sleep 120])"
proof -
  have l: "rate_limited (first_row_status 429 0 a)" for a
    by (simp add: rate_limited_def first_row_status_def)
  then have h: "(0::nat) < 3 \<and> (\<forall>a < 3. rate_limited (first_row_status 429 0 a))"
    by simp
  have b: "backoff_effects 60 0 (3 - 1) @ [Get (3 - 1)] = [Get 0, Sleep 60, Get 1, Sleep 120, Get 2]"
    "backoff_effects 30 0 3 = [Get 0, Sleep 30, Get 1, Sleep 60, Get 2, Sleep 120]"
    by (simp_all add: backoff_effects_def upt_conv_Cons)
  from rate_limit_backoff [of 3 "first_row_status 429 0"] h
  have "search_legacy_obituary 3 (first_row_status 429 0)
       = (Raised RateLimited, backoff_effects 60 0 (3 - 1) @ [Get (3 - 1)]) \<and>
     async_search 3 (first_row_status 429 0) = (NotCounted, backoff_effects 30 0 3)"
    by blast
  with l show ?thesis unfolding b by simp
qed

end
